theory Spec2Isabelle
  imports Main "HOL-Library.Sublist" "HOL-Library.Word"
begin

section \<open>Strings of the C++ standard library\<close>

text \<open>
  A \<open>std::string\<close> is a \<open>string\<close> (a list of bytes). \<open>s.find(c)\<close> returns the index of
  the first occurrence of \<open>c\<close>, or \<open>std::string::npos\<close>, which is \<open>None\<close> here.
\<close>

fun find_chr :: "char \<Rightarrow> string \<Rightarrow> nat option" where
  "find_chr c [] = None"
| "find_chr c (x # xs) = (if x = c then Some 0 else map_option Suc (find_chr c xs))"

text \<open>
  \<open>s.substr(pos, n)\<close> and \<open>s.substr(pos)\<close>, for \<open>pos \<le> s.size()\<close> (the only way the
  sources call them; beyond the size the library throws \<open>std::out_of_range\<close>).
\<close>

definition substr :: "string \<Rightarrow> nat \<Rightarrow> nat \<Rightarrow> string" where
  "substr s pos n = take n (drop pos s)"

definition substr_from :: "string \<Rightarrow> nat \<Rightarrow> string" where
  "substr_from s pos = drop pos s"

text \<open>
  \<open>s.c_str()\<close> read back as a C string (as happens when it is converted to the
  \<open>std::string\<close> key of a map): the bytes before the first NUL.
\<close>

definition c_str :: "string \<Rightarrow> string" where
  "c_str s = takeWhile (\<lambda>c. c \<noteq> CHR 0x00) s"

text \<open>
  \<open>s[pos]\<close> of a \<open>std::string\<close>: the character at \<open>pos\<close> below the size, the
  terminating NUL at \<open>pos = s.size()\<close>, undefined behaviour (\<open>None\<close>) beyond.
\<close>

definition string_at :: "string \<Rightarrow> nat \<Rightarrow> char option" where
  "string_at s pos =
     (if pos < length s then Some (s ! pos)
      else if pos = length s then Some (CHR 0x00)
      else None)"

section \<open>Parsing of name:value entries\<close>

text \<open>The status codes of the anonymous enum of the encoder's main file.\<close>

definition kBadFormat :: int where "kBadFormat = - 3"
definition kNoMemory :: int where "kNoMemory = - 2"
definition kInvalidArg :: int where "kInvalidArg = - 1"
definition kSuccess :: int where "kSuccess = 0"

type_synonym string_map = "string \<rightharpoonup> string"

text \<open>
  \<open>store_string_map_entries\<close> of the encoder's main file. The map is passed by reference,
  so the model returns it next to the status, whatever the status is.
\<close>

fun store_string_map_entries :: "string list \<Rightarrow> string_map \<Rightarrow> int \<times> string_map" where
  "store_string_map_entries [] out_map = (kSuccess, out_map)"
| "store_string_map_entries (entry # rest) out_map =
     (case find_chr CHR '':'' entry of
        None \<Rightarrow> (kBadFormat, out_map)
      | Some sep \<Rightarrow>
          store_string_map_entries rest
            (out_map(c_str (substr entry 0 sep) \<mapsto> substr_from entry (sep + 1))))"

text \<open>
  \<open>store_string_map_entries\<close> of \<open>http_client_main.cc\<close>: the same loop, returning the
  Windows codes \<open>ERROR_BAD_FORMAT\<close> and \<open>ERROR_SUCCESS\<close>. They come from a system header,
  so they are parameters here.
\<close>

fun http_client_store_string_map_entries ::
  "int \<Rightarrow> int \<Rightarrow> string list \<Rightarrow> string_map \<Rightarrow> int \<times> string_map" where
  "http_client_store_string_map_entries ERROR_BAD_FORMAT ERROR_SUCCESS [] out_map =
     (ERROR_SUCCESS, out_map)"
| "http_client_store_string_map_entries ERROR_BAD_FORMAT ERROR_SUCCESS (entry # rest) out_map =
     (case find_chr CHR '':'' entry of
        None \<Rightarrow> (ERROR_BAD_FORMAT, out_map)
      | Some sep \<Rightarrow>
          http_client_store_string_map_entries ERROR_BAD_FORMAT ERROR_SUCCESS rest
            (out_map(c_str (substr entry 0 sep) \<mapsto> substr_from entry (sep + 1))))"

text \<open>
  What a well-formed entry stands for, written without indices: the name is the text before
  the first colon (cut at a NUL), the value is everything after that colon.
\<close>

definition entry_name :: "string \<Rightarrow> string" where
  "entry_name e = c_str (takeWhile (\<lambda>c. c \<noteq> CHR '':'') e)"

definition entry_value :: "string \<Rightarrow> string" where
  "entry_value e = tl (dropWhile (\<lambda>c. c \<noteq> CHR '':'') e)"

definition insert_entry :: "string_map \<Rightarrow> string \<Rightarrow> string_map" where
  "insert_entry m e = m(entry_name e \<mapsto> entry_value e)"

section \<open>Configuration\<close>

text \<open>
  The header that declares \<open>webmlive::HttpUploaderSettings\<close> is not part of the sources;
  the record has the fields the two main files read and write. \<open>local_file\<close> is used by
  \<open>http_client_main.cc\<close> only, \<open>post_mode\<close>, \<open>stream_name\<close> and \<open>stream_id\<close> by the
  encoder's main file only.
\<close>

datatype HttpPostMode = HTTP_POST | HTTP_FORM_POST

record HttpUploaderSettings =
  local_file :: string
  target_url :: string
  headers :: string_map
  form_variables :: string_map
  post_mode :: HttpPostMode
  stream_name :: string
  stream_id :: string

text \<open>
  Of \<open>webmlive::WebmEncoderConfig\<close> the record keeps the DASH output fields. The capture,
  Vorbis and VPx fields are numbers read with \<open>strtol\<close> and \<open>strtod\<close> and flags; no
  other field depends on them, and the parser below keeps the way their options consume
  arguments.
\<close>

record webmlive_WebmEncoderConfig =
  dash_encode :: bool
  dash_dir :: string
  dash_name :: string
  dash_start_number :: string

text \<open>The \<open>WebmEncoderConfig\<close> of the anonymous namespace of the encoder's main file.\<close>

record WebmEncoderConfig =
  uploader_settings :: HttpUploaderSettings
  enc_config :: webmlive_WebmEncoderConfig

definition kAgentQueryFragment :: string where "kAgentQueryFragment = ''&agent=p''"
definition kMetadataQueryFragment :: string where "kMetadataQueryFragment = ''&metadata=1''"
definition kWebmItagQueryFragment :: string where "kWebmItagQueryFragment = ''&itag=43''"

datatype exit_code = EXIT_SUCCESS | EXIT_FAILURE

text \<open>
  How a call ends: it returns a value, it ends the process with \<open>exit\<close>, or it runs into
  undefined behaviour (a null pointer given to \<open>strcmp\<close>, a string indexed beyond its
  terminator).
\<close>

datatype 'a outcome = Returned 'a | Exited exit_code | Undefined

section \<open>Command line of the encoder\<close>

text \<open>
  \<open>argv\<close> is the list of its \<open>argc\<close> entries; an entry is \<open>None\<close> when the pointer is
  null. \<open>arg_has_value\<close> logs a warning when it returns false; logging is not modelled.
\<close>

type_synonym argv = "string option list"

definition arg_has_value :: "nat \<Rightarrow> nat \<Rightarrow> argv \<Rightarrow> bool" where
  "arg_has_value arg_index argc argv =
     (let val_index = arg_index + 1
      in val_index < argc \<and> argv ! val_index \<noteq> None)"

text \<open>The state of the parsing loop: the configuration and the two local vectors.\<close>

record parse_state =
  config :: WebmEncoderConfig
  unparsed_headers :: "string list"
  unparsed_vars :: "string list"

definition update_enc ::
  "(webmlive_WebmEncoderConfig \<Rightarrow> webmlive_WebmEncoderConfig) \<Rightarrow> parse_state \<Rightarrow> parse_state" where
  "update_enc f st = st\<lparr>config := (config st)\<lparr>enc_config := f (enc_config (config st))\<rparr>\<rparr>"

definition update_uploader ::
  "(HttpUploaderSettings \<Rightarrow> HttpUploaderSettings) \<Rightarrow> parse_state \<Rightarrow> parse_state" where
  "update_uploader f st =
     st\<lparr>config := (config st)\<lparr>uploader_settings := f (uploader_settings (config st))\<rparr>\<rparr>"

text \<open>
  The \<open>--dash_dir\<close> branch: the directory is the argument, and a slash is appended unless
  the character read at index \<open>length()\<close> is a slash or a backslash.
\<close>

definition dash_dir_of_arg :: "string \<Rightarrow> string option" where
  "dash_dir_of_arg arg =
     (case string_at arg (length arg) of
        None \<Rightarrow> None
      | Some last_char \<Rightarrow>
          Some (if last_char \<noteq> CHR ''/'' \<and> last_char \<noteq> CHR 0x5C then arg @ ''/'' else arg))"

text \<open>
  The options whose branch is \<open>!strcmp(name, argv[i]) && arg_has_value(i, argc, argv)\<close>
  with one \<open>argv[++i]\<close>, and whose value goes to a field that is not modelled.
\<close>

definition other_value_options :: "string list" where
  "other_value_options =
     [''--adev'', ''--adevidx'', ''--achannels'', ''--arate'', ''--asize'',
      ''--vdev'', ''--vdevidx'', ''--vwidth'', ''--vheight'', ''--vframe_rate'',
      ''--vorbis_bitrate'', ''--vorbis_minimum_bitrate'', ''--vorbis_maximum_bitrate'',
      ''--vorbis_iblock_bias'', ''--vorbis_lowpass_frequency'',
      ''--vpx_keyframe_interval'', ''--vpx_bitrate'', ''--vpx_codec'', ''--vpx_decimate'',
      ''--vpx_min_q'', ''--vpx_max_q'', ''--vpx_noise_sensitivity'', ''--vpx_speed'',
      ''--vpx_static_threshold'', ''--vpx_threads'', ''--vpx_overshoot'',
      ''--vpx_undershoot'', ''--vpx_max_buffer'', ''--vpx_init_buffer'',
      ''--vpx_opt_buffer'', ''--vpx_max_kf_bitrate'', ''--vpx_sharpness'',
      ''--vp8_token_partitions'', ''--vp9_aq_mode'', ''--vp9_gf_cbr_boost'',
      ''--vp9_tile_cols'']"

text \<open>
  One pass through the body of the \<open>for\<close> loop, at index \<open>i\<close>: the index after the body's
  own \<open>++i\<close> (the loop header adds one more) and the new state. The branches are the
  source's \<open>else if\<close> chain; the names are distinct, so at most one \<open>strcmp\<close> matches.
  The switches that set a field outside the model (\<open>--adisable\<close>, \<open>--amanual\<close>,
  \<open>--vdisable\<close>, \<open>--vmanual\<close>, \<open>--vorbis_disable_vbr\<close>, \<open>--vpx_error_resilience\<close>,
  and \<open>--vp9_disable_fpd\<close>, which asks for a value and does not consume it), an option
  whose value is missing and an unknown argument all leave index and state as they are.
\<close>

definition parse_arg :: "nat \<Rightarrow> argv \<Rightarrow> parse_state \<Rightarrow> (nat \<times> parse_state) outcome" where
  "parse_arg i argv st =
     (case argv ! i of
        None \<Rightarrow> Undefined
      | Some a \<Rightarrow>
          if a = ''-h'' \<or> a = ''-?'' \<or> a = ''--help'' then Exited EXIT_SUCCESS
          else if a = ''--dash'' then
            Returned (i, update_enc (\<lambda>e. e\<lparr>dash_encode := True\<rparr>) st)
          else if a = ''--dash_dir'' \<and> arg_has_value i (length argv) argv then
            (case dash_dir_of_arg (the (argv ! (i + 1))) of
               None \<Rightarrow> Undefined
             | Some d \<Rightarrow> Returned (i + 1, update_enc (\<lambda>e. e\<lparr>dash_dir := d\<rparr>) st))
          else if a = ''--dash_name'' \<and> arg_has_value i (length argv) argv then
            Returned (i + 1, update_enc (\<lambda>e. e\<lparr>dash_name := the (argv ! (i + 1))\<rparr>) st)
          else if a = ''--dash_start_number'' \<and> arg_has_value i (length argv) argv then
            Returned (i + 1,
              update_enc (\<lambda>e. e\<lparr>dash_start_number := the (argv ! (i + 1))\<rparr>) st)
          else if a = ''--url'' \<and> arg_has_value i (length argv) argv then
            Returned (i + 1, update_uploader (\<lambda>u. u\<lparr>target_url := the (argv ! (i + 1))\<rparr>) st)
          else if a = ''--header'' \<and> arg_has_value i (length argv) argv then
            Returned (i + 1,
              st\<lparr>unparsed_headers := unparsed_headers st @ [the (argv ! (i + 1))]\<rparr>)
          else if a = ''--form_post'' \<and> arg_has_value i (length argv) argv then
            Returned (i, update_uploader (\<lambda>u. u\<lparr>post_mode := HTTP_FORM_POST\<rparr>) st)
          else if a = ''--var'' \<and> arg_has_value i (length argv) argv then
            Returned (i + 1, st\<lparr>unparsed_vars := unparsed_vars st @ [the (argv ! (i + 1))]\<rparr>)
          else if a = ''--stream_name'' \<and> arg_has_value i (length argv) argv then
            Returned (i + 1, update_uploader (\<lambda>u. u\<lparr>stream_name := the (argv ! (i + 1))\<rparr>) st)
          else if a = ''--stream_id'' \<and> arg_has_value i (length argv) argv then
            Returned (i + 1, update_uploader (\<lambda>u. u\<lparr>stream_id := the (argv ! (i + 1))\<rparr>) st)
          else if a \<in> set other_value_options \<and> arg_has_value i (length argv) argv then
            Returned (i + 1, st)
          else Returned (i, st))"

text \<open>The \<open>for\<close> loop from index \<open>i\<close>, with \<open>argc = length argv\<close>.\<close>

function parse_loop :: "nat \<Rightarrow> argv \<Rightarrow> parse_state \<Rightarrow> parse_state outcome" where
  "parse_loop i argv st =
     (if i < length argv then
        (case parse_arg i argv st of
           Returned (i', st') \<Rightarrow> parse_loop (i' + 1) argv st'
         | Exited c \<Rightarrow> Exited c
         | Undefined \<Rightarrow> Undefined)
      else Returned st)"
  by pat_completeness auto
termination
proof (relation "measure (\<lambda>(i, argv, st). length argv - i)", goal_cases)
  case 1
  show ?case by simp
next
  case (2 i argv st x i' st')
  then have r: "parse_arg i argv st = Returned (i', st')" by simp
  have "i' = i \<or> i' = i + 1"
  proof (cases "arg_has_value i (length argv) argv")
    case True
    show ?thesis
      using r unfolding parse_arg_def by (simp add: True split: option.split_asm if_split_asm)
  next
    case False
    show ?thesis
      using r unfolding parse_arg_def by (simp add: False split: option.split_asm if_split_asm)
  qed
  with 2 show ?case by auto
qed

declare parse_loop.simps [simp del]

text \<open>
  \<open>parse_command_line\<close>: the default POST mode, the loop from index 1, then the headers and
  form variables collected on the way are stored; the status of the two
  \<open>store_string_map_entries\<close> calls is dropped, as in the source.
\<close>

definition parse_command_line :: "argv \<Rightarrow> WebmEncoderConfig \<Rightarrow> WebmEncoderConfig outcome" where
  "parse_command_line argv cfg =
     (case parse_loop 1 argv
             \<lparr>config = cfg\<lparr>uploader_settings := (uploader_settings cfg)\<lparr>post_mode := HTTP_POST\<rparr>\<rparr>,
              unparsed_headers = [], unparsed_vars = []\<rparr> of
        Returned st \<Rightarrow>
          (let us = uploader_settings (config st);
               hs = snd (store_string_map_entries (unparsed_headers st) (headers us));
               fv = snd (store_string_map_entries (unparsed_vars st) (form_variables us))
           in Returned ((config st)\<lparr>uploader_settings := us\<lparr>headers := hs, form_variables := fv\<rparr>\<rparr>))
      | Exited c \<Rightarrow> Exited c
      | Undefined \<Rightarrow> Undefined)"

text \<open>A configuration with empty strings and maps, for the worked examples.\<close>

definition empty_config :: WebmEncoderConfig where
  "empty_config =
     \<lparr>uploader_settings =
        \<lparr>local_file = [], target_url = [], headers = Map.empty, form_variables = Map.empty,
         post_mode = HTTP_POST, stream_name = [], stream_id = []\<rparr>,
      enc_config = \<lparr>dash_encode = False, dash_dir = [], dash_name = [], dash_start_number = []\<rparr>\<rparr>"

section \<open>Starting the components of the encoder\<close>

text \<open>
  The classes \<open>webmlive::WebmEncoder\<close> and \<open>webmlive::HttpUploader\<close> are not part of the
  sources. A run is described by the calls made on the two objects, in order, and by what
  moves through the chunk buffer (for the HTTP client below).
\<close>

type_synonym byte = "8 word"

datatype component = Encoder | Uploader

datatype event =
    Init component
  | Run component
  | Stop component
  | ChunkCompleted "byte list"
  | UploadStarted "byte list"
  | TransferEnded

text \<open>
  \<open>start_uploader\<close> of the encoder's main file. The statuses that \<open>HttpUploader::Init\<close> and
  \<open>HttpUploader::Run\<close> return are parameters. The configuration is reached through a
  pointer, so the model returns it.
\<close>

definition start_uploader ::
  "WebmEncoderConfig \<Rightarrow> int \<Rightarrow> int \<Rightarrow> int \<times> WebmEncoderConfig \<times> event list" where
  "start_uploader cfg init_status run_status =
     (if init_status \<noteq> 0 then (init_status, cfg, [Init Uploader])
      else
        let us = uploader_settings cfg;
            cfg' =
              (if find_chr CHR ''?'' (target_url us) = None
               then cfg\<lparr>uploader_settings :=
                      us\<lparr>target_url :=
                           target_url us @ ''?ns='' @ stream_name us @ ''&id='' @ stream_id us
                             @ kAgentQueryFragment @ kWebmItagQueryFragment\<rparr>\<rparr>
               else cfg)
        in (run_status, cfg', [Init Uploader, Run Uploader]))"

text \<open>
  The statuses the absent \<open>Init\<close> and \<open>Run\<close> methods return in one run of \<open>encoder_main\<close>.
\<close>

record encoder_env =
  encoder_Init_status :: int
  uploader_Init_status :: int
  uploader_Run_status :: int
  encoder_Run_status :: int

text \<open>
  \<open>encoder_main\<close>. Its polling loop prints the statistics and sleeps until a key is
  pressed; it calls nothing that is recorded here, so the run that reaches it is the run
  in which the key is pressed at some point. The exit code, the configuration and the
  calls are returned.
\<close>

definition encoder_main ::
  "WebmEncoderConfig \<Rightarrow> encoder_env \<Rightarrow> exit_code \<times> WebmEncoderConfig \<times> event list" where
  "encoder_main cfg env =
     (if encoder_Init_status env \<noteq> 0 then (EXIT_FAILURE, cfg, [Init Encoder])
      else
        (case start_uploader cfg (uploader_Init_status env) (uploader_Run_status env) of
           (status, cfg', evs) \<Rightarrow>
             if status \<noteq> 0 then (EXIT_FAILURE, cfg', Init Encoder # evs)
             else if encoder_Run_status env \<noteq> 0
               then (EXIT_FAILURE, cfg', Init Encoder # evs @ [Run Encoder, Stop Uploader])
             else (EXIT_SUCCESS, cfg',
                   Init Encoder # evs @ [Run Encoder, Stop Encoder, Stop Uploader])))"

text \<open>
  The parameter check of \<open>main\<close>: true when \<open>main\<close> logs that \<open>stream_id\<close> and
  \<open>stream_name\<close> are required and returns \<open>EXIT_FAILURE\<close>.
\<close>

definition params_rejected :: "HttpUploaderSettings \<Rightarrow> bool" where
  "params_rejected us =
     (if target_url us \<noteq> [] then
        (stream_id us = [] \<or> stream_name us = []) \<and> find_chr CHR ''?'' (target_url us) = None
      else False)"

text \<open>
  \<open>main\<close> of the encoder, from the command line, the default-constructed configuration and
  the statuses of the run: the exit code and the calls made on the components.
\<close>

definition main ::
  "argv \<Rightarrow> WebmEncoderConfig \<Rightarrow> encoder_env \<Rightarrow> (exit_code \<times> event list) outcome" where
  "main argv cfg0 env =
     (case parse_command_line argv cfg0 of
        Returned cfg \<Rightarrow>
          if params_rejected (uploader_settings cfg) then Returned (EXIT_FAILURE, [])
          else (case encoder_main cfg env of (code, cfg', evs) \<Rightarrow> Returned (code, evs))
      | Exited c \<Rightarrow> Exited c
      | Undefined \<Rightarrow> Undefined)"

text \<open>A run in which every \<open>Init\<close> and \<open>Run\<close> succeeds, for the worked examples.\<close>

definition env_ok :: encoder_env where
  "env_ok = \<lparr>encoder_Init_status = 0, uploader_Init_status = 0, uploader_Run_status = 0,
             encoder_Run_status = 0\<rparr>"

section \<open>The chunk buffer\<close>

text \<open>
  Modelled from the spec: the statuses of the error taxonomy, which the missing classes
  \<open>WebmChunkBuffer\<close> and \<open>HttpUploader\<close> return.
\<close>

datatype status =
    Success
  | InvalidArgument
  | BufferFull
  | NotRunning
  | AlreadyRunning
  | TransportInitFailed
  | TransportTransferFailed

text \<open>
  Modelled from the spec: the class \<open>WebmChunkBuffer\<close> (\<open>buffer_util.h\<close>) is missing from the
  sources. The buffer owns an ordered queue of ready chunks, the oldest first, and the chunk
  that is being assembled; the bytes of both count against the capacity.
\<close>

record ChunkBuffer =
  capacity :: int
  ready :: "byte list list"
  assembling :: "byte list"

text \<open>
  Modelled from the spec: the total buffered size of the missing \<open>WebmChunkBuffer\<close>, the
  bytes of the ready chunks and of the chunk that is being assembled.
\<close>

definition buffered_bytes :: "ChunkBuffer \<Rightarrow> nat" where
  "buffered_bytes cb = sum_list (map length (ready cb)) + length (assembling cb)"

text \<open>
  Modelled from the spec: \<open>Init(capacityBytes)\<close> of the missing \<open>WebmChunkBuffer\<close> allocates
  the storage and fails with \<open>InvalidArgument\<close> if the capacity is not positive.
\<close>

definition ChunkBuffer_Init :: "int \<Rightarrow> status + ChunkBuffer" where
  "ChunkBuffer_Init capacityBytes =
     (if capacityBytes \<le> 0 then Inl InvalidArgument
      else Inr \<lparr>capacity = capacityBytes, ready = [], assembling = []\<rparr>)"

text \<open>
  Modelled from the spec: \<open>Write(bytes)\<close> of the missing \<open>WebmChunkBuffer\<close> (the sources
  call it \<open>BufferData\<close>) appends the bytes to the chunk that is being assembled; if that
  completes a chunk, the assembled chunk becomes ready. Where a chunk ends is decided outside
  the buffer (a flush by the caller, or the muxer's framing), so it is the parameter
  \<open>boundary\<close>. The write fails with \<open>BufferFull\<close> if the buffered size would exceed the
  capacity. The buffer is returned with the status.
\<close>

definition Write :: "ChunkBuffer \<Rightarrow> byte list \<Rightarrow> bool \<Rightarrow> status \<times> ChunkBuffer" where
  "Write cb bytes boundary =
     (if int (buffered_bytes cb + length bytes) > capacity cb then (BufferFull, cb)
      else if boundary
        then (Success, cb\<lparr>ready := ready cb @ [assembling cb @ bytes], assembling := []\<rparr>)
      else (Success, cb\<lparr>assembling := assembling cb @ bytes\<rparr>))"

text \<open>
  Modelled from the spec: \<open>IsChunkReady\<close> of the missing \<open>WebmChunkBuffer\<close> (the sources call
  it \<open>ChunkReady\<close>) is a query that does not block: whether a chunk is ready, and the length
  of the oldest one.
\<close>

definition IsChunkReady :: "ChunkBuffer \<Rightarrow> bool \<times> int" where
  "IsChunkReady cb =
     (case ready cb of [] \<Rightarrow> (False, 0) | c # cs \<Rightarrow> (True, int (length c)))"

text \<open>
  Modelled from the spec: \<open>ReadChunk(destination, length)\<close> of the missing
  \<open>WebmChunkBuffer\<close> copies the oldest ready chunk into the caller's storage and removes it
  from the buffer; it fails with \<open>InvalidArgument\<close> if \<open>length\<close> is not the ready chunk's
  length. The third component is what was copied to the destination. The spec names no
  status for a read with no ready chunk: no length matches then, and the model answers
  \<open>InvalidArgument\<close> as well.
\<close>

definition ReadChunk :: "ChunkBuffer \<Rightarrow> int \<Rightarrow> status \<times> ChunkBuffer \<times> byte list" where
  "ReadChunk cb len =
     (case ready cb of
        [] \<Rightarrow> (InvalidArgument, cb, [])
      | c # cs \<Rightarrow>
          if len \<noteq> int (length c) then (InvalidArgument, cb, [])
          else (Success, cb\<lparr>ready := cs\<rparr>, c))"

text \<open>
  Modelled from the spec: sequences of operations on the missing \<open>WebmChunkBuffer\<close>, the
  producer's writes and the consumer's reads.
\<close>

datatype buffer_op = OpWrite "byte list" bool | OpRead int

fun apply_op :: "ChunkBuffer \<Rightarrow> buffer_op \<Rightarrow> ChunkBuffer" where
  "apply_op cb (OpWrite bytes boundary) = snd (Write cb bytes boundary)"
| "apply_op cb (OpRead len) = fst (snd (ReadChunk cb len))"

text \<open>
  Modelled from the spec: a producer on the missing \<open>WebmChunkBuffer\<close> that makes the writes
  of a list in order; next to the buffer it returns the chunks it has completed, in the
  order of their completion.
\<close>

fun write_all :: "ChunkBuffer \<Rightarrow> (byte list \<times> bool) list \<Rightarrow> ChunkBuffer \<times> byte list list" where
  "write_all cb [] = (cb, [])"
| "write_all cb ((bytes, boundary) # ws) =
     (case Write cb bytes boundary of
        (st, cb') \<Rightarrow>
          (case write_all cb' ws of
             (cb'', cs) \<Rightarrow>
               (cb'', (if st = Success \<and> boundary then [assembling cb @ bytes] else []) @ cs)))"

text \<open>
  A consumer that reads up to \<open>n\<close> chunks the way \<open>client_main\<close> does, asking for the length
  of the ready chunk first; it stops when no chunk is ready or a read fails.
\<close>

fun read_all :: "ChunkBuffer \<Rightarrow> nat \<Rightarrow> ChunkBuffer \<times> byte list list" where
  "read_all cb 0 = (cb, [])"
| "read_all cb (Suc n) =
     (case IsChunkReady cb of
        (False, chunk_length) \<Rightarrow> (cb, [])
      | (True, chunk_length) \<Rightarrow>
          (case ReadChunk cb chunk_length of
             (st, cb', c) \<Rightarrow>
               if st \<noteq> Success then (cb', [])
               else (case read_all cb' n of (cb'', cs) \<Rightarrow> (cb'', c # cs))))"

section \<open>The upload scheduler\<close>

text \<open>
  Modelled from the spec: the states of the missing class \<open>HttpUploader\<close>
  (\<open>http_uploader.h\<close>), which goes through \<open>Idle\<close>, \<open>Initialized\<close>, \<open>Running\<close> and
  \<open>Stopped\<close>.
\<close>

datatype scheduler_state = Idle | Initialized | Running | Stopped

text \<open>
  Modelled from the spec: the missing class \<open>HttpUploader\<close> keeps its state, the settings
  captured at \<open>Init\<close> and the one buffer its worker is transferring.
\<close>

record UploadScheduler =
  state :: scheduler_state
  snapshot :: "HttpUploaderSettings option"
  in_flight :: "byte list option"

text \<open>
  Modelled from the spec: a newly constructed \<open>HttpUploader\<close> (the class is missing) is
  \<open>Idle\<close> and holds nothing.
\<close>

definition new_uploader :: UploadScheduler where
  "new_uploader = \<lparr>state = Idle, snapshot = None, in_flight = None\<rparr>"

text \<open>
  Modelled from the spec: \<open>Init(settings)\<close> of the missing \<open>HttpUploader\<close> validates the
  settings (a non-empty target URL), fails with \<open>InvalidArgument\<close> if the URL has no query
  string and the stream id or the stream name is empty, and captures the settings with the
  URL normalized: \<open>ns\<close>, \<open>id\<close>, the agent marker and the item-tag marker are appended when
  the URL has no query string. The spec gives \<open>Init\<close> from \<open>Idle\<close> only and names no status
  for another state; the model refuses it with \<open>InvalidArgument\<close>.
\<close>

definition Uploader_Init ::
  "UploadScheduler \<Rightarrow> HttpUploaderSettings \<Rightarrow> status \<times> UploadScheduler" where
  "Uploader_Init u s =
     (if state u \<noteq> Idle \<or> target_url s = [] then (InvalidArgument, u)
      else if find_chr CHR ''?'' (target_url s) = None
        then (if stream_id s = [] \<or> stream_name s = [] then (InvalidArgument, u)
              else (Success,
                    u\<lparr>state := Initialized,
                      snapshot := Some (s\<lparr>target_url :=
                        target_url s @ ''?ns='' @ stream_name s @ ''&id='' @ stream_id s
                          @ kAgentQueryFragment @ kWebmItagQueryFragment\<rparr>)\<rparr>))
      else (Success, u\<lparr>state := Initialized, snapshot := Some s\<rparr>))"

text \<open>
  Modelled from the spec: \<open>Run()\<close> of the missing \<open>HttpUploader\<close> starts the worker and goes
  from \<open>Initialized\<close> to \<open>Running\<close>; it fails with \<open>AlreadyRunning\<close> if called twice and with
  \<open>TransportInitFailed\<close> if the HTTP client cannot be constructed (the parameter says whether
  it can). The spec names no status for \<open>Run\<close> before \<open>Init\<close> or after \<open>Stop\<close>; the model
  refuses it with \<open>NotRunning\<close>.
\<close>

definition Uploader_Run :: "UploadScheduler \<Rightarrow> bool \<Rightarrow> status \<times> UploadScheduler" where
  "Uploader_Run u transport_ok =
     (case state u of
        Running \<Rightarrow> (AlreadyRunning, u)
      | Initialized \<Rightarrow>
          if transport_ok then (Success, u\<lparr>state := Running\<rparr>) else (TransportInitFailed, u)
      | Idle \<Rightarrow> (NotRunning, u)
      | Stopped \<Rightarrow> (NotRunning, u))"

text \<open>
  Modelled from the spec: \<open>UploadBuffer(bytes, length)\<close> of the missing \<open>HttpUploader\<close> hands
  one chunk to the worker and does not wait for the transfer; it fails with \<open>NotRunning\<close>
  outside \<open>Running\<close>.
\<close>

definition UploadBuffer :: "UploadScheduler \<Rightarrow> byte list \<Rightarrow> status \<times> UploadScheduler" where
  "UploadBuffer u bytes =
     (if state u \<noteq> Running then (NotRunning, u) else (Success, u\<lparr>in_flight := Some bytes\<rparr>))"

text \<open>
  Modelled from the spec: \<open>UploadComplete()\<close> of the missing \<open>HttpUploader\<close> is true when the
  worker is idle and ready to accept the next buffer.
\<close>

definition UploadComplete :: "UploadScheduler \<Rightarrow> bool" where
  "UploadComplete u = (state u = Running \<and> in_flight u = None)"

text \<open>
  Modelled from the spec: the worker of the missing \<open>HttpUploader\<close> ends a transfer, by
  finishing it or by failing (a failed transfer is logged and not retried), and is idle
  again.
\<close>

definition transfer_ended :: "UploadScheduler \<Rightarrow> UploadScheduler" where
  "transfer_ended u = u\<lparr>in_flight := None\<rparr>"

text \<open>
  Modelled from the spec: \<open>Stop()\<close> of the missing \<open>HttpUploader\<close> interrupts the transfer in
  progress, which is discarded, and waits for the worker to exit. It is a no-op without a
  prior \<open>Run\<close> and on a stopped scheduler.
\<close>

definition Uploader_Stop :: "UploadScheduler \<Rightarrow> UploadScheduler" where
  "Uploader_Stop u = (if state u = Running then u\<lparr>state := Stopped, in_flight := None\<rparr> else u)"

text \<open>
  Modelled from the spec: what can happen to the missing \<open>HttpUploader\<close>, the calls of its
  interface and the event of its worker.
\<close>

datatype uploader_op =
    CallInit HttpUploaderSettings
  | CallRun bool
  | CallUploadBuffer "byte list"
  | WorkerTransferEnded
  | CallStop

fun uploader_step :: "UploadScheduler \<Rightarrow> uploader_op \<Rightarrow> UploadScheduler" where
  "uploader_step u (CallInit s) = snd (Uploader_Init u s)"
| "uploader_step u (CallRun transport_ok) = snd (Uploader_Run u transport_ok)"
| "uploader_step u (CallUploadBuffer bytes) = snd (UploadBuffer u bytes)"
| "uploader_step u WorkerTransferEnded = transfer_ended u"
| "uploader_step u CallStop = Uploader_Stop u"

section \<open>The HTTP client\<close>

text \<open>
  Reading a trace: the chunks the producer completed, the chunks whose upload was started,
  the components on which \<open>Run\<close> and \<open>Stop\<close> were called, each in order of occurrence.
\<close>

fun completed_chunks :: "event list \<Rightarrow> byte list list" where
  "completed_chunks [] = []"
| "completed_chunks (ChunkCompleted c # es) = c # completed_chunks es"
| "completed_chunks (e # es) = completed_chunks es"

fun uploaded_chunks :: "event list \<Rightarrow> byte list list" where
  "uploaded_chunks [] = []"
| "uploaded_chunks (UploadStarted c # es) = c # uploaded_chunks es"
| "uploaded_chunks (e # es) = uploaded_chunks es"

fun runs :: "event list \<Rightarrow> component list" where
  "runs [] = []"
| "runs (Run c # es) = c # runs es"
| "runs (e # es) = runs es"

fun stops :: "event list \<Rightarrow> component list" where
  "stops [] = []"
| "stops (Stop c # es) = c # stops es"
| "stops (e # es) = stops es"

text \<open>
  Whether a transfer is open after an event: one is open from \<open>UploadStarted\<close> until the
  worker ends it or the uploader is stopped.
\<close>

fun busy_step :: "bool \<Rightarrow> event \<Rightarrow> bool" where
  "busy_step b (UploadStarted c) = True"
| "busy_step b TransferEnded = False"
| "busy_step b (Stop Uploader) = False"
| "busy_step b e = b"

text \<open>
  A trace keeps one transfer in flight at a time when no \<open>UploadStarted\<close> occurs while a
  transfer is open; \<open>b\<close> says whether one is open at the start.
\<close>

fun one_in_flight :: "bool \<Rightarrow> event list \<Rightarrow> bool" where
  "one_in_flight b [] = True"
| "one_in_flight b (UploadStarted c # es) = (\<not> b \<and> one_in_flight True es)"
| "one_in_flight b (e # es) = one_in_flight (busy_step b e) es"

text \<open>
  \<open>start_encoder\<close> and \<open>start_uploader\<close> of \<open>http_client_main.cc\<close>. The statuses of the
  encoder's \<open>Init\<close> and \<open>Run\<close> are parameters; the uploader is the scheduler above.
\<close>

definition start_encoder :: "int \<Rightarrow> int \<Rightarrow> int \<times> event list" where
  "start_encoder init_status run_status =
     (if init_status \<noteq> 0 then (init_status, [Init Encoder])
      else (run_status, [Init Encoder, Run Encoder]))"

definition http_client_start_uploader ::
  "UploadScheduler \<Rightarrow> HttpUploaderSettings \<Rightarrow> bool \<Rightarrow> status \<times> UploadScheduler \<times> event list" where
  "http_client_start_uploader u settings transport_ok =
     (case Uploader_Init u settings of
        (status, u1) \<Rightarrow>
          if status \<noteq> Success then (status, u1, [Init Uploader])
          else (case Uploader_Run u1 transport_ok of
                  (status', u2) \<Rightarrow> (status', u2, [Init Uploader, Run Uploader])))"

text \<open>
  What one pass through the polling loop of \<open>client_main\<close> meets: the bytes the file reader
  delivers (at most the size of the read buffer is taken), whether they complete a chunk,
  whether the worker has ended its transfer since the last pass, and whether a reallocation
  of the read buffer succeeds.
\<close>

record tick =
  file_bytes :: "byte list"
  chunk_boundary :: bool
  transfer_ends :: bool
  realloc_ok :: bool

record client_state =
  chunk_buffer :: ChunkBuffer
  uploader :: UploadScheduler
  read_buffer_size :: int
  exit_status :: exit_code
  trace :: "event list"

datatype 'a step = Continue 'a | Break 'a

definition kReadBufferSize :: int where "kReadBufferSize = 100 * 1024"

text \<open>The worker thread, between two passes.\<close>

definition worker_phase :: "tick \<Rightarrow> client_state \<Rightarrow> client_state" where
  "worker_phase t s =
     (if transfer_ends t \<and> in_flight (uploader s) \<noteq> None
      then s\<lparr>uploader := transfer_ended (uploader s), trace := trace s @ [TransferEnded]\<rparr>
      else s)"

text \<open>
  The first half of the loop body: read from the file and, if bytes were read, buffer them;
  a failed \<open>BufferData\<close> leaves the loop, with the exit code as it is.
\<close>

definition produce_phase :: "tick \<Rightarrow> client_state \<Rightarrow> client_state step" where
  "produce_phase t s =
     (let bytes = take (nat (read_buffer_size s)) (file_bytes t) in
      if length bytes > 0 then
        (case Write (chunk_buffer s) bytes (chunk_boundary t) of
           (status, cb) \<Rightarrow>
             if status \<noteq> Success then Break (s\<lparr>chunk_buffer := cb\<rparr>)
             else Continue
               (s\<lparr>chunk_buffer := cb,
                  trace := trace s @
                    (if chunk_boundary t
                     then [ChunkCompleted (assembling (chunk_buffer s) @ bytes)] else [])\<rparr>))
      else Continue s)"

text \<open>
  The second half: when the uploader reports \<open>UploadComplete\<close> and a chunk is ready, grow
  the read buffer if the chunk does not fit, read the chunk and start its upload. A failed
  reallocation, \<open>ReadChunk\<close> or \<open>UploadBuffer\<close> leaves the loop with \<open>EXIT_FAILURE\<close>.
\<close>

definition consume_phase :: "tick \<Rightarrow> client_state \<Rightarrow> client_state step" where
  "consume_phase t s =
     (if UploadComplete (uploader s) then
        (case IsChunkReady (chunk_buffer s) of
           (False, chunk_length) \<Rightarrow> Continue s
         | (True, chunk_length) \<Rightarrow>
             if chunk_length > read_buffer_size s \<and> \<not> realloc_ok t
               then Break (s\<lparr>exit_status := EXIT_FAILURE\<rparr>)
             else
               (case ReadChunk (chunk_buffer s) chunk_length of
                  (status, cb, read_buf) \<Rightarrow>
                    let s1 = s\<lparr>read_buffer_size := max (read_buffer_size s) chunk_length,
                               chunk_buffer := cb\<rparr>
                    in if status \<noteq> Success then Break (s1\<lparr>exit_status := EXIT_FAILURE\<rparr>)
                       else
                         (case UploadBuffer (uploader s1) read_buf of
                            (status', u) \<Rightarrow>
                              if status' \<noteq> Success
                                then Break (s1\<lparr>uploader := u, exit_status := EXIT_FAILURE\<rparr>)
                              else Continue
                                (s1\<lparr>uploader := u,
                                    trace := trace s1 @ [UploadStarted read_buf]\<rparr>))))
      else Continue s)"

definition client_iteration :: "tick \<Rightarrow> client_state \<Rightarrow> client_state step" where
  "client_iteration t s =
     (case produce_phase t (worker_phase t s) of
        Break s' \<Rightarrow> Break s'
      | Continue s' \<Rightarrow> consume_phase t s')"

text \<open>
  The polling loop over the passes made before a key is pressed. A run in which no key is
  ever pressed and no pass breaks out has no end and is not described.
\<close>

fun client_loop :: "tick list \<Rightarrow> client_state \<Rightarrow> client_state" where
  "client_loop [] s = s"
| "client_loop (t # ts) s =
     (case client_iteration t s of
        Continue s' \<Rightarrow> client_loop ts s'
      | Break s' \<Rightarrow> s')"

text \<open>
  What one run of \<open>client_main\<close> meets outside the loop: the statuses of the file reader and
  of the encoder, whether the HTTP client and the read buffer can be made, and the capacity
  the chunk buffer gets.
\<close>

record client_env =
  CreateFile_status :: int
  client_encoder_Init_status :: int
  client_encoder_Run_status :: int
  client_transport_ok :: bool
  read_buf_ok :: bool
  buffer_capacity :: int
  ticks :: "tick list"

text \<open>\<open>client_main\<close>: the exit code, the trace, and the state the loop ended in, if it ran.\<close>

definition client_main ::
  "HttpUploaderSettings \<Rightarrow> client_env \<Rightarrow> exit_code \<times> event list \<times> client_state option" where
  "client_main settings env =
     (if CreateFile_status env \<noteq> 0 then (EXIT_FAILURE, [], None)
      else
        (case start_encoder (client_encoder_Init_status env) (client_encoder_Run_status env) of
           (status, evs1) \<Rightarrow>
             if status \<noteq> 0 then (EXIT_FAILURE, evs1, None)
             else
               (case http_client_start_uploader new_uploader settings (client_transport_ok env) of
                  (status', u, evs2) \<Rightarrow>
                    if status' \<noteq> Success
                      then (EXIT_FAILURE, evs1 @ evs2 @ [Stop Encoder], None)
                    else if \<not> read_buf_ok env
                      then (EXIT_FAILURE, evs1 @ evs2 @ [Stop Uploader, Stop Encoder], None)
                    else
                      (case ChunkBuffer_Init (buffer_capacity env) of
                         Inl e \<Rightarrow>
                           (EXIT_FAILURE, evs1 @ evs2 @ [Stop Uploader, Stop Encoder], None)
                       | Inr cb \<Rightarrow>
                           (let s = client_loop (ticks env)
                                      \<lparr>chunk_buffer = cb, uploader = u,
                                       read_buffer_size = kReadBufferSize,
                                       exit_status = EXIT_SUCCESS, trace = evs1 @ evs2\<rparr>
                            in (exit_status s, trace s @ [Stop Encoder, Stop Uploader],
                                Some (s\<lparr>uploader := Uploader_Stop (uploader s)\<rparr>)))))))"

text \<open>
  What holds of the state between two passes of the loop: the chunks completed so far are
  the chunks uploaded so far followed by the ready queue, no upload was started while
  another was open, and a transfer is open exactly when the scheduler holds a buffer.
\<close>

definition loop_inv :: "client_state \<Rightarrow> bool" where
  "loop_inv s \<longleftrightarrow>
     completed_chunks (trace s) = uploaded_chunks (trace s) @ ready (chunk_buffer s)
     \<and> one_in_flight False (trace s)
     \<and> (foldl busy_step False (trace s) \<longleftrightarrow> in_flight (uploader s) \<noteq> None)"

text \<open>The state a pass ends in, whether it goes on or breaks out.\<close>

fun state_of :: "'a step \<Rightarrow> 'a" where
  "state_of (Continue s) = s"
| "state_of (Break s) = s"

text \<open>
  The runs of \<open>client_main\<close> that reach the polling loop, and the state in which they
  enter it.
\<close>

definition client_started :: "HttpUploaderSettings \<Rightarrow> client_env \<Rightarrow> bool" where
  "client_started settings env \<longleftrightarrow>
     CreateFile_status env = 0 \<and> client_encoder_Init_status env = 0
     \<and> client_encoder_Run_status env = 0
     \<and> fst (http_client_start_uploader new_uploader settings (client_transport_ok env)) = Success
     \<and> read_buf_ok env \<and> 0 < buffer_capacity env"

definition loop_entry :: "HttpUploaderSettings \<Rightarrow> client_env \<Rightarrow> client_state" where
  "loop_entry settings env =
     \<lparr>chunk_buffer = \<lparr>capacity = buffer_capacity env, ready = [], assembling = []\<rparr>,
      uploader = fst (snd (http_client_start_uploader new_uploader settings (client_transport_ok env))),
      read_buffer_size = kReadBufferSize, exit_status = EXIT_SUCCESS,
      trace = [Init Encoder, Run Encoder, Init Uploader, Run Uploader]\<rparr>"

text \<open>Settings and a run of four passes, for the worked examples.\<close>

definition settings_1 :: HttpUploaderSettings where
  "settings_1 = (uploader_settings empty_config)\<lparr>target_url := ''http://example.com/up?x=1''\<rparr>"

definition tick_idle :: tick where
  "tick_idle = \<lparr>file_bytes = [], chunk_boundary = False, transfer_ends = False, realloc_ok = True\<rparr>"

definition client_env_1 :: client_env where
  "client_env_1 =
     \<lparr>CreateFile_status = 0, client_encoder_Init_status = 0, client_encoder_Run_status = 0,
      client_transport_ok = True, read_buf_ok = True, buffer_capacity = 10,
      ticks = [tick_idle\<lparr>file_bytes := [1, 2], chunk_boundary := True\<rparr>,
               tick_idle\<lparr>file_bytes := [3], chunk_boundary := True\<rparr>,
               tick_idle\<lparr>file_bytes := [4]\<rparr>,
               tick_idle\<lparr>transfer_ends := True\<rparr>]\<rparr>"

text \<open>
  A run of five passes in which the uploader stays busy and the fourth read does not fit in
  the buffer, for the worked examples.
\<close>

definition client_env_2 :: client_env where
  "client_env_2 =
     \<lparr>CreateFile_status = 0, client_encoder_Init_status = 0, client_encoder_Run_status = 0,
      client_transport_ok = True, read_buf_ok = True, buffer_capacity = 10,
      ticks = [tick_idle\<lparr>file_bytes := [1, 2, 3, 4], chunk_boundary := True\<rparr>,
               tick_idle\<lparr>file_bytes := [5, 6, 7, 8], chunk_boundary := True\<rparr>,
               tick_idle\<lparr>file_bytes := [9, 10, 11, 12], chunk_boundary := True\<rparr>,
               tick_idle\<lparr>file_bytes := [13, 14, 15, 16], chunk_boundary := True\<rparr>,
               tick_idle\<lparr>file_bytes := [13, 14, 15, 16], chunk_boundary := True,
                         transfer_ends := True\<rparr>]\<rparr>"

section \<open>Facts about the string functions\<close>

lemma find_chr_None: "find_chr c s = None \<longleftrightarrow> c \<notin> set s"
  by (induction s) auto

lemma find_chr_Some:
  "find_chr c s = Some n \<Longrightarrow>
     take n s = takeWhile (\<lambda>x. x \<noteq> c) s \<and> drop (Suc n) s = tl (dropWhile (\<lambda>x. x \<noteq> c) s)"
  by (induction s arbitrary: n) (auto split: if_splits)

lemma store_step:
  "find_chr CHR '':'' e = Some sep \<Longrightarrow>
     out_map(c_str (substr e 0 sep) \<mapsto> substr_from e (sep + 1)) = insert_entry out_map e"
  using find_chr_Some [of "CHR '':''" e sep]
  by (simp add: insert_entry_def entry_name_def entry_value_def substr_def substr_from_def)

lemma store_well_formed:
  "\<forall>e \<in> set es. CHR '':'' \<in> set e \<Longrightarrow>
     store_string_map_entries es m = (kSuccess, foldl insert_entry m es)"
proof (induction es arbitrary: m)
  case Nil
  show ?case by simp
next
  case (Cons e es)
  from Cons.prems obtain sep where sep: "find_chr CHR '':'' e = Some sep"
    using find_chr_None [of "CHR '':''" e] by (cases "find_chr CHR '':'' e") auto
  from Cons.prems have rest: "\<forall>e \<in> set es. CHR '':'' \<in> set e" by simp
  show ?case
    using Cons.IH [OF rest, of "insert_entry m e"] sep store_step [OF sep, of m] by simp
qed

lemma store_append:
  "\<forall>e \<in> set pre. CHR '':'' \<in> set e \<Longrightarrow>
     store_string_map_entries (pre @ es) m = store_string_map_entries es (foldl insert_entry m pre)"
proof (induction pre arbitrary: m)
  case Nil
  show ?case by simp
next
  case (Cons e pre)
  from Cons.prems obtain sep where sep: "find_chr CHR '':'' e = Some sep"
    using find_chr_None [of "CHR '':''" e] by (cases "find_chr CHR '':'' e") auto
  from Cons.prems have rest: "\<forall>e \<in> set pre. CHR '':'' \<in> set e" by simp
  show ?case
    using Cons.IH [OF rest, of "insert_entry m e"] sep store_step [OF sep, of m] by simp
qed

lemma http_client_store_well_formed:
  "\<forall>e \<in> set es. CHR '':'' \<in> set e \<Longrightarrow>
     http_client_store_string_map_entries bad ok es m = (ok, foldl insert_entry m es)"
proof (induction es arbitrary: m)
  case Nil
  show ?case by simp
next
  case (Cons e es)
  from Cons.prems obtain sep where sep: "find_chr CHR '':'' e = Some sep"
    using find_chr_None [of "CHR '':''" e] by (cases "find_chr CHR '':'' e") auto
  from Cons.prems have rest: "\<forall>e \<in> set es. CHR '':'' \<in> set e" by simp
  show ?case
    using Cons.IH [OF rest, of "insert_entry m e"] sep store_step [OF sep, of m] by simp
qed

lemma http_client_store_append:
  "\<forall>e \<in> set pre. CHR '':'' \<in> set e \<Longrightarrow>
     http_client_store_string_map_entries bad ok (pre @ es) m =
       http_client_store_string_map_entries bad ok es (foldl insert_entry m pre)"
proof (induction pre arbitrary: m)
  case Nil
  show ?case by simp
next
  case (Cons e pre)
  from Cons.prems obtain sep where sep: "find_chr CHR '':'' e = Some sep"
    using find_chr_None [of "CHR '':''" e] by (cases "find_chr CHR '':'' e") auto
  from Cons.prems have rest: "\<forall>e \<in> set pre. CHR '':'' \<in> set e" by simp
  show ?case
    using Cons.IH [OF rest, of "insert_entry m e"] sep store_step [OF sep, of m] by simp
qed

section \<open>Facts about the name:value entries\<close>

text \<open>
  C8. \<open>store_string_map_entries\<close> walks the entries from left to right and returns the
  bad-format status at the first entry without a colon. The map it was given is by then
  updated with every entry before the malformed one, in order, and with nothing that comes
  after it: the function is not atomic on error. Both copies of the function (the encoder's
  and the HTTP client's) behave so.
\<close>

theorem store_string_map_entries_first_bad_entry:
  assumes "\<forall>e \<in> set pre. CHR '':'' \<in> set e" and "CHR '':'' \<notin> set bad"
  shows "store_string_map_entries (pre @ bad # post) m = (kBadFormat, foldl insert_entry m pre)
       \<and> store_string_map_entries pre m = (kSuccess, foldl insert_entry m pre)
       \<and> http_client_store_string_map_entries eb es (pre @ bad # post) m
           = (eb, foldl insert_entry m pre)
       \<and> http_client_store_string_map_entries eb es pre m = (es, foldl insert_entry m pre)"
proof -
  from assms(2) have none: "find_chr CHR '':'' bad = None"
    by (simp add: find_chr_None)
  have a: "store_string_map_entries (pre @ bad # post) m = (kBadFormat, foldl insert_entry m pre)"
    using store_append [OF assms(1), of "bad # post" m] none by simp
  have b: "http_client_store_string_map_entries eb es (pre @ bad # post) m
             = (eb, foldl insert_entry m pre)"
    using http_client_store_append [OF assms(1), of eb es "bad # post" m] none by simp
  show ?thesis
    using a b store_well_formed [OF assms(1)] http_client_store_well_formed [OF assms(1)]
    by simp
qed

theorem store_string_map_entries_first_bad_entry_witness:
  "CHR '':'' \<in> set ''a:b'' \<and> CHR '':'' \<notin> set ''oops''
   \<and> fst (store_string_map_entries [''a:b'', ''oops'', ''c:d''] Map.empty) = kBadFormat
   \<and> snd (store_string_map_entries [''a:b'', ''oops'', ''c:d''] Map.empty) ''a'' = Some ''b''
   \<and> snd (store_string_map_entries [''a:b'', ''oops'', ''c:d''] Map.empty) ''c'' = None
   \<and> snd (store_string_map_entries [''a:b'', ''oops'', ''c:d''] Map.empty) \<noteq> Map.empty"
proof -
  have h1: "\<forall>e \<in> set [''a:b'']. CHR '':'' \<in> set e" by simp
  have h2: "CHR '':'' \<notin> set ''oops''" by simp
  note t = store_string_map_entries_first_bad_entry [OF h1 h2, of "[''c:d'']" Map.empty]
  from t have r: "store_string_map_entries [''a:b'', ''oops'', ''c:d''] Map.empty
                  = (kBadFormat, foldl insert_entry Map.empty [''a:b''])"
    by (simp del: store_string_map_entries.simps http_client_store_string_map_entries.simps)
  have v: "foldl insert_entry Map.empty [''a:b''] = [''a'' \<mapsto> ''b'']"
    by (simp add: insert_entry_def entry_name_def entry_value_def c_str_def)
  have ne: "[''a'' \<mapsto> ''b''] \<noteq> (Map.empty :: string_map)"
    by simp
  show ?thesis using h2 ne unfolding r v by simp
qed

section \<open>Facts about the command line parser\<close>

lemma parse_arg_index:
  assumes r: "parse_arg i argv st = Returned (i', st')"
  shows "i' = i \<or> i' = i + 1"
proof (cases "arg_has_value i (length argv) argv")
  case True
  show ?thesis
    using r unfolding parse_arg_def by (simp add: True split: option.split_asm if_split_asm)
next
  case False
  show ?thesis
    using r unfolding parse_arg_def by (simp add: False split: option.split_asm if_split_asm)
qed

lemma parse_arg_post_mode:
  assumes r: "parse_arg i argv st = Returned (i', st')"
  shows "post_mode (uploader_settings (config st')) = post_mode (uploader_settings (config st))
       \<or> (argv ! i = Some ''--form_post'' \<and> arg_has_value i (length argv) argv)"
proof (cases "arg_has_value i (length argv) argv")
  case True
  show ?thesis
    using r unfolding parse_arg_def
    by (auto simp add: True update_enc_def update_uploader_def split: option.split_asm if_split_asm)
next
  case False
  show ?thesis
    using r unfolding parse_arg_def
    by (auto simp add: False update_enc_def update_uploader_def split: option.split_asm if_split_asm)
qed

lemma parse_loop_post_mode:
  "parse_loop i argv st = Returned st' \<Longrightarrow>
   post_mode (uploader_settings (config st')) = HTTP_FORM_POST \<Longrightarrow>
   post_mode (uploader_settings (config st)) = HTTP_FORM_POST
   \<or> (\<exists>j. i \<le> j \<and> j + 1 < length argv \<and> argv ! j = Some ''--form_post'' \<and> argv ! (j + 1) \<noteq> None)"
proof (induction i argv st rule: parse_loop.induct)
  case (1 i argv st)
  show ?case
  proof (cases "i < length argv")
    case False
    with "1.prems" show ?thesis by (simp add: parse_loop.simps)
  next
    case True
    from "1.prems"(1) True obtain i2 st2 where
      step: "parse_arg i argv st = Returned (i2, st2)" and
      rest: "parse_loop (i2 + 1) argv st2 = Returned st'"
      by (subst (asm) parse_loop.simps) (auto split: outcome.splits)
    from "1.IH" [OF True step refl rest "1.prems"(2)]
    have ih: "post_mode (uploader_settings (config st2)) = HTTP_FORM_POST
       \<or> (\<exists>j. i2 + 1 \<le> j \<and> j + 1 < length argv \<and> argv ! j = Some ''--form_post'' \<and> argv ! (j + 1) \<noteq> None)" .
    from parse_arg_index [OF step] have idx: "i \<le> i2" by auto
    show ?thesis
    proof (rule disjE [OF ih])
      assume a: "post_mode (uploader_settings (config st2)) = HTTP_FORM_POST"
      from parse_arg_post_mode [OF step] show ?thesis
      proof
        assume "post_mode (uploader_settings (config st2)) = post_mode (uploader_settings (config st))"
        with a show ?thesis by simp
      next
        assume b: "argv ! i = Some ''--form_post'' \<and> arg_has_value i (length argv) argv"
        then have "i + 1 < length argv \<and> argv ! (i + 1) \<noteq> None"
          by (simp add: arg_has_value_def)
        with b show ?thesis by blast
      qed
    next
      assume "\<exists>j. i2 + 1 \<le> j \<and> j + 1 < length argv \<and> argv ! j = Some ''--form_post'' \<and> argv ! (j + 1) \<noteq> None"
      then obtain j where j: "i2 + 1 \<le> j" "j + 1 < length argv" "argv ! j = Some ''--form_post''" "argv ! (j + 1) \<noteq> None"
        by blast
      from j(1) idx have "i \<le> j" by simp
      with j show ?thesis by blast
    qed
  qed
qed

lemma parse_command_line_post_mode:
  assumes "parse_command_line argv cfg = Returned cfg'"
  shows "\<exists>st. parse_loop 1 argv
             \<lparr>config = cfg\<lparr>uploader_settings := (uploader_settings cfg)\<lparr>post_mode := HTTP_POST\<rparr>\<rparr>,
              unparsed_headers = [], unparsed_vars = []\<rparr> = Returned st
        \<and> post_mode (uploader_settings cfg') = post_mode (uploader_settings (config st))
        \<and> enc_config cfg' = enc_config (config st)"
  using assms unfolding parse_command_line_def
  by (auto simp: Let_def split: outcome.splits)

lemma final_form_post_ignored:
  assumes "i + 1 = length argv" and "argv ! i = Some ''--form_post''"
  shows "parse_loop i argv st = Returned st"
proof -
  from assms(1) have no: "\<not> arg_has_value i (length argv) argv"
    by (simp add: arg_has_value_def)
  have step: "parse_arg i argv st = Returned (i, st)"
    unfolding parse_arg_def by (simp add: no assms(2) other_value_options_def)
  from assms(1) have lt: "i < length argv" by simp
  show ?thesis
    using lt step assms(1)
    by (subst parse_loop.simps, simp, subst parse_loop.simps, simp)
qed

text \<open>
  C9. \<open>parse_command_line\<close> leaves \<open>post_mode\<close> at \<open>HTTP_FORM_POST\<close> only when some
  argument \<open>--form_post\<close> is followed by a further, non-null argument. A command line with
  no such occurrence keeps the default \<open>HTTP_POST\<close>, and \<open>--form_post\<close> in the last
  position is passed over with the state as it was.
\<close>

theorem parse_command_line_form_post:
  assumes "parse_command_line argv cfg = Returned cfg'"
  shows "(post_mode (uploader_settings cfg') = HTTP_FORM_POST \<longrightarrow>
           (\<exists>j. 1 \<le> j \<and> j + 1 < length argv \<and> argv ! j = Some ''--form_post''
                \<and> argv ! (j + 1) \<noteq> None))
       \<and> ((\<forall>j. 1 \<le> j \<and> j + 1 < length argv \<longrightarrow> argv ! j \<noteq> Some ''--form_post'') \<longrightarrow>
            post_mode (uploader_settings cfg') = HTTP_POST)
       \<and> (\<forall>i st. i + 1 = length argv \<and> argv ! i = Some ''--form_post'' \<longrightarrow>
            parse_loop i argv st = Returned st)"
proof -
  from parse_command_line_post_mode [OF assms] obtain st where
    st: "parse_loop 1 argv
             \<lparr>config = cfg\<lparr>uploader_settings := (uploader_settings cfg)\<lparr>post_mode := HTTP_POST\<rparr>\<rparr>,
              unparsed_headers = [], unparsed_vars = []\<rparr> = Returned st"
    and pm: "post_mode (uploader_settings cfg') = post_mode (uploader_settings (config st))"
    by blast
  have a: "post_mode (uploader_settings cfg') = HTTP_FORM_POST \<longrightarrow>
           (\<exists>j. 1 \<le> j \<and> j + 1 < length argv \<and> argv ! j = Some ''--form_post''
                \<and> argv ! (j + 1) \<noteq> None)"
  proof
    assume "post_mode (uploader_settings cfg') = HTTP_FORM_POST"
    with pm have "post_mode (uploader_settings (config st)) = HTTP_FORM_POST" by simp
    from parse_loop_post_mode [OF st this] show "\<exists>j. 1 \<le> j \<and> j + 1 < length argv \<and> argv ! j = Some ''--form_post''
                \<and> argv ! (j + 1) \<noteq> None"
      by simp
  qed
  have b: "(\<forall>j. 1 \<le> j \<and> j + 1 < length argv \<longrightarrow> argv ! j \<noteq> Some ''--form_post'') \<longrightarrow>
            post_mode (uploader_settings cfg') = HTTP_POST"
    using a by (cases "post_mode (uploader_settings cfg')") auto
  have c: "\<forall>i st. i + 1 = length argv \<and> argv ! i = Some ''--form_post'' \<longrightarrow>
            parse_loop i argv st = Returned st"
    using final_form_post_ignored by blast
  show ?thesis using a b c by blast
qed

lemmas parse_eval =
  parse_command_line_def parse_loop.simps parse_arg_def arg_has_value_def
  update_enc_def update_uploader_def empty_config_def other_value_options_def
  dash_dir_of_arg_def string_at_def Let_def

theorem parse_command_line_form_post_witness:
  "parse_command_line [Some ''enc'', Some ''--form_post'', Some ''--dash''] empty_config
     = Returned (empty_config\<lparr>
         uploader_settings := (uploader_settings empty_config)\<lparr>post_mode := HTTP_FORM_POST\<rparr>,
         enc_config := (enc_config empty_config)\<lparr>dash_encode := True\<rparr>\<rparr>)
   \<and> (\<exists>j. 1 \<le> j \<and> j + 1 < length [Some ''enc'', Some ''--form_post'', Some ''--dash'']
          \<and> [Some ''enc'', Some ''--form_post'', Some ''--dash''] ! j = Some ''--form_post'')
   \<and> parse_command_line [Some ''enc'', Some ''--form_post''] empty_config = Returned empty_config
   \<and> post_mode (uploader_settings empty_config) = HTTP_POST"
proof -
  let ?c1 = "empty_config\<lparr>
         uploader_settings := (uploader_settings empty_config)\<lparr>post_mode := HTTP_FORM_POST\<rparr>,
         enc_config := (enc_config empty_config)\<lparr>dash_encode := True\<rparr>\<rparr>"
  have h1: "parse_command_line [Some ''enc'', Some ''--form_post'', Some ''--dash''] empty_config
              = Returned ?c1"
    by (simp add: parse_eval)
  have h0: "parse_command_line [Some ''enc'', Some ''--form_post''] empty_config
              = Returned empty_config"
    by (simp add: parse_eval)
  have p1: "post_mode (uploader_settings ?c1) = HTTP_FORM_POST" by simp
  from parse_command_line_form_post [OF h1] p1
  have e: "\<exists>j. 1 \<le> j \<and> j + 1 < length [Some ''enc'', Some ''--form_post'', Some ''--dash'']
          \<and> [Some ''enc'', Some ''--form_post'', Some ''--dash''] ! j = Some ''--form_post''"
    by blast
  have n0: "\<forall>j. 1 \<le> j \<and> j + 1 < length [Some ''enc'', Some ''--form_post''] \<longrightarrow>
              [Some ''enc'', Some ''--form_post''] ! j \<noteq> Some ''--form_post''"
    by simp
  from parse_command_line_form_post [OF h0] n0
  have p0: "post_mode (uploader_settings empty_config) = HTTP_POST" by blast
  show ?thesis using h1 e h0 p0 by blast
qed

lemma dash_dir_of_arg_slash: "dash_dir_of_arg v = Some (v @ ''/'')"
  by (simp add: dash_dir_of_arg_def string_at_def)

lemma parse_arg_dash_dir:
  assumes "i + 1 < length argv" and "argv ! i = Some ''--dash_dir''" and "argv ! (i + 1) = Some v"
  shows "parse_arg i argv st = Returned (i + 1, update_enc (\<lambda>e. e\<lparr>dash_dir := v @ ''/''\<rparr>) st)"
proof -
  from assms have has: "arg_has_value i (length argv) argv" by (simp add: arg_has_value_def)
  show ?thesis
    unfolding parse_arg_def using assms(2,3) has by (simp add: dash_dir_of_arg_slash)
qed

lemma parse_arg_dash_dir_cases:
  assumes r: "parse_arg i argv st = Returned (i', st')"
  shows "dash_dir (enc_config (config st')) = dash_dir (enc_config (config st))
       \<or> (i + 1 < length argv \<and> argv ! i = Some ''--dash_dir''
           \<and> (\<exists>v. argv ! (i + 1) = Some v \<and> dash_dir (enc_config (config st')) = v @ ''/''))"
proof (cases "arg_has_value i (length argv) argv")
  case True
  then obtain v where v: "argv ! Suc i = Some v" and lt: "i + 1 < length argv"
    by (auto simp: arg_has_value_def)
  show ?thesis
    using r lt unfolding parse_arg_def
    by (auto simp add: True v dash_dir_of_arg_slash update_enc_def update_uploader_def
          split: option.split_asm if_split_asm)
next
  case False
  show ?thesis
    using r unfolding parse_arg_def
    by (auto simp add: False update_enc_def update_uploader_def split: option.split_asm if_split_asm)
qed

lemma parse_loop_dash_dir:
  "parse_loop i argv st = Returned st' \<Longrightarrow>
   dash_dir (enc_config (config st')) = dash_dir (enc_config (config st))
   \<or> (\<exists>j v. i \<le> j \<and> j + 1 < length argv \<and> argv ! j = Some ''--dash_dir''
         \<and> argv ! (j + 1) = Some v \<and> dash_dir (enc_config (config st')) = v @ ''/'')"
proof (induction i argv st rule: parse_loop.induct)
  case (1 i argv st)
  show ?case
  proof (cases "i < length argv")
    case False
    with "1.prems" show ?thesis by (simp add: parse_loop.simps)
  next
    case True
    from "1.prems"(1) True obtain i2 st2 where
      step: "parse_arg i argv st = Returned (i2, st2)" and
      rest: "parse_loop (i2 + 1) argv st2 = Returned st'"
      by (subst (asm) parse_loop.simps) (auto split: outcome.splits)
    from parse_arg_index [OF step] have idx: "i \<le> i2" by auto
    from "1.IH" [OF True step refl rest]
    show ?thesis
    proof
      assume a: "dash_dir (enc_config (config st')) = dash_dir (enc_config (config st2))"
      from parse_arg_dash_dir_cases [OF step] show ?thesis
      proof
        assume "dash_dir (enc_config (config st2)) = dash_dir (enc_config (config st))"
        with a show ?thesis by simp
      next
        assume "i + 1 < length argv \<and> argv ! i = Some ''--dash_dir''
           \<and> (\<exists>v. argv ! (i + 1) = Some v \<and> dash_dir (enc_config (config st2)) = v @ ''/'')"
        with a show ?thesis by auto
      qed
    next
      assume "\<exists>j v. i2 + 1 \<le> j \<and> j + 1 < length argv \<and> argv ! j = Some ''--dash_dir''
         \<and> argv ! (j + 1) = Some v \<and> dash_dir (enc_config (config st')) = v @ ''/''"
      then obtain j v where j: "i2 + 1 \<le> j" "j + 1 < length argv" "argv ! j = Some ''--dash_dir''"
         "argv ! (j + 1) = Some v" "dash_dir (enc_config (config st')) = v @ ''/''"
        by blast
      from j(1) idx have "i \<le> j" by simp
      with j show ?thesis by blast
    qed
  qed
qed

lemma parse_single_dash_dir:
  "parse_command_line [Some p, Some ''--dash_dir'', Some v] cfg =
     Returned (cfg\<lparr>uploader_settings := (uploader_settings cfg)\<lparr>post_mode := HTTP_POST\<rparr>,
                   enc_config := (enc_config cfg)\<lparr>dash_dir := v @ ''/''\<rparr>\<rparr>)"
  by (simp add: parse_command_line_def parse_loop.simps parse_arg_def arg_has_value_def
        update_enc_def dash_dir_of_arg_slash Let_def)

text \<open>
  C10. Every \<open>--dash_dir\<close> value gets a slash appended, whatever its last character is:
  the separator test reads the character at index \<open>length()\<close>, which is the terminating
  NUL and never a slash or a backslash. So a directory set by the parser is the argument
  followed by a slash, also when the argument already ends in one.
\<close>

theorem dash_dir_slash_always_appended:
  "(\<forall>cfg'. parse_command_line argv cfg = Returned cfg' \<longrightarrow>
      dash_dir (enc_config cfg') = dash_dir (enc_config cfg)
      \<or> (\<exists>j v. 1 \<le> j \<and> j + 1 < length argv \<and> argv ! j = Some ''--dash_dir''
            \<and> argv ! (j + 1) = Some v \<and> dash_dir (enc_config cfg') = v @ ''/''))
   \<and> (\<forall>i st. i + 1 < length argv \<and> argv ! i = Some ''--dash_dir'' \<and> argv ! (i + 1) = Some v \<longrightarrow>
        parse_arg i argv st = Returned (i + 1, update_enc (\<lambda>e. e\<lparr>dash_dir := v @ ''/''\<rparr>) st))
   \<and> string_at v (length v) = Some (CHR 0x00)
   \<and> dash_dir_of_arg v = Some (v @ ''/'')
   \<and> (\<exists>cfg'. parse_command_line [Some p, Some ''--dash_dir'', Some v] cfg = Returned cfg'
         \<and> dash_dir (enc_config cfg') = v @ ''/'')"
proof -
  have a: "\<forall>cfg'. parse_command_line argv cfg = Returned cfg' \<longrightarrow>
      dash_dir (enc_config cfg') = dash_dir (enc_config cfg)
      \<or> (\<exists>j v. 1 \<le> j \<and> j + 1 < length argv \<and> argv ! j = Some ''--dash_dir''
            \<and> argv ! (j + 1) = Some v \<and> dash_dir (enc_config cfg') = v @ ''/'')"
  proof (intro allI impI)
    fix cfg'
    assume r: "parse_command_line argv cfg = Returned cfg'"
    from parse_command_line_post_mode [OF r] obtain st where
      st: "parse_loop 1 argv
             \<lparr>config = cfg\<lparr>uploader_settings := (uploader_settings cfg)\<lparr>post_mode := HTTP_POST\<rparr>\<rparr>,
              unparsed_headers = [], unparsed_vars = []\<rparr> = Returned st"
      and ec: "enc_config cfg' = enc_config (config st)"
      by blast
    from parse_loop_dash_dir [OF st] ec
    show "dash_dir (enc_config cfg') = dash_dir (enc_config cfg)
      \<or> (\<exists>j v. 1 \<le> j \<and> j + 1 < length argv \<and> argv ! j = Some ''--dash_dir''
            \<and> argv ! (j + 1) = Some v \<and> dash_dir (enc_config cfg') = v @ ''/'')"
      by simp
  qed
  have b: "\<forall>i st. i + 1 < length argv \<and> argv ! i = Some ''--dash_dir'' \<and> argv ! (i + 1) = Some v \<longrightarrow>
        parse_arg i argv st = Returned (i + 1, update_enc (\<lambda>e. e\<lparr>dash_dir := v @ ''/''\<rparr>) st)"
    using parse_arg_dash_dir by blast
  have c: "string_at v (length v) = Some (CHR 0x00)" by (simp add: string_at_def)
  have d: "\<exists>cfg'. parse_command_line [Some p, Some ''--dash_dir'', Some v] cfg = Returned cfg'
         \<and> dash_dir (enc_config cfg') = v @ ''/''"
    by (simp add: parse_single_dash_dir)
  show ?thesis using a b c d dash_dir_of_arg_slash by blast
qed

theorem dash_dir_slash_always_appended_witness:
  "parse_command_line [Some ''enc'', Some ''--dash_dir'', Some ''out/''] empty_config
     = Returned (empty_config\<lparr>enc_config := (enc_config empty_config)\<lparr>dash_dir := ''out//''\<rparr>\<rparr>)
   \<and> dash_dir_of_arg ''out/'' = Some ''out//''
   \<and> parse_arg 1 [Some ''enc'', Some ''--dash_dir'', Some ''out/'']
        \<lparr>config = empty_config, unparsed_headers = [], unparsed_vars = []\<rparr>
       = Returned (2, \<lparr>config = empty_config\<lparr>enc_config := (enc_config empty_config)\<lparr>dash_dir := ''out//''\<rparr>\<rparr>,
                       unparsed_headers = [], unparsed_vars = []\<rparr>)"
proof -
  note t = dash_dir_slash_always_appended
    [of "[Some ''enc'', Some ''--dash_dir'', Some ''out/'']" empty_config "''out/''" "''enc''"]
  from t have d: "dash_dir_of_arg ''out/'' = Some (''out/'' @ ''/'')" by blast
  from t have s: "\<forall>i st. i + 1 < length [Some ''enc'', Some ''--dash_dir'', Some ''out/'']
       \<and> [Some ''enc'', Some ''--dash_dir'', Some ''out/''] ! i = Some ''--dash_dir''
       \<and> [Some ''enc'', Some ''--dash_dir'', Some ''out/''] ! (i + 1) = Some ''out/'' \<longrightarrow>
        parse_arg i [Some ''enc'', Some ''--dash_dir'', Some ''out/''] st
          = Returned (i + 1, update_enc (\<lambda>e. e\<lparr>dash_dir := ''out/'' @ ''/''\<rparr>) st)"
    by blast
  have pre: "(1::nat) + 1 < length [Some ''enc'', Some ''--dash_dir'', Some ''out/'']
       \<and> [Some ''enc'', Some ''--dash_dir'', Some ''out/''] ! 1 = Some ''--dash_dir''
       \<and> [Some ''enc'', Some ''--dash_dir'', Some ''out/''] ! (1 + 1) = Some ''out/''"
    by simp
  from s pre have
    "parse_arg 1 [Some ''enc'', Some ''--dash_dir'', Some ''out/'']
        \<lparr>config = empty_config, unparsed_headers = [], unparsed_vars = []\<rparr>
       = Returned (1 + 1, update_enc (\<lambda>e. e\<lparr>dash_dir := ''out/'' @ ''/''\<rparr>)
           \<lparr>config = empty_config, unparsed_headers = [], unparsed_vars = []\<rparr>)"
    by blast
  then have s1: "parse_arg 1 [Some ''enc'', Some ''--dash_dir'', Some ''out/'']
        \<lparr>config = empty_config, unparsed_headers = [], unparsed_vars = []\<rparr>
       = Returned (2, \<lparr>config = empty_config\<lparr>enc_config := (enc_config empty_config)\<lparr>dash_dir := ''out//''\<rparr>\<rparr>,
                       unparsed_headers = [], unparsed_vars = []\<rparr>)"
    by (simp add: update_enc_def)
  have w: "parse_command_line [Some ''enc'', Some ''--dash_dir'', Some ''out/''] empty_config
     = Returned (empty_config\<lparr>enc_config := (enc_config empty_config)\<lparr>dash_dir := ''out//''\<rparr>\<rparr>)"
    by (simp add: parse_single_dash_dir empty_config_def)
  show ?thesis using d s1 w by simp
qed

section \<open>Facts about the start of the encoder\<close>

lemma params_rejected_iff:
  "params_rejected us \<longleftrightarrow>
     target_url us \<noteq> [] \<and> CHR ''?'' \<notin> set (target_url us)
     \<and> (stream_id us = [] \<or> stream_name us = [])"
  by (auto simp: params_rejected_def find_chr_None)

lemma main_after_parse:
  "parse_command_line argv cfg0 = Returned cfg \<Longrightarrow>
     main argv cfg0 env =
       (if params_rejected (uploader_settings cfg) then Returned (EXIT_FAILURE, [])
        else Returned (fst (encoder_main cfg env), snd (snd (encoder_main cfg env))))"
  by (simp add: main_def split: prod.splits)

text \<open>
  C3. For settings with a non-empty target URL, the parameter check of \<open>main\<close> fails
  exactly when the URL has no query string (no question mark) and the stream id or the
  stream name is empty. With a query string in the URL the check passes, also when both
  are empty. A failed check ends \<open>main\<close> with \<open>EXIT_FAILURE\<close> before any component is
  initialised; a passed check hands the configuration to \<open>encoder_main\<close>. The check
  fails on exactly the settings for which \<open>Init\<close> of the uploader, as the spec describes it,
  returns \<open>InvalidArgument\<close>.
\<close>

theorem main_requires_stream_ids_without_query:
  assumes "target_url us \<noteq> []"
  shows "(params_rejected us \<longleftrightarrow>
            (CHR ''?'' \<notin> set (target_url us) \<and> (stream_id us = [] \<or> stream_name us = [])))
       \<and> (CHR ''?'' \<in> set (target_url us) \<longrightarrow> \<not> params_rejected us)
       \<and> (\<forall>argv cfg0 cfg env.
             parse_command_line argv cfg0 = Returned cfg \<and> uploader_settings cfg = us \<longrightarrow>
               main argv cfg0 env =
                 (if params_rejected us then Returned (EXIT_FAILURE, [])
                  else Returned (fst (encoder_main cfg env), snd (snd (encoder_main cfg env)))))
       \<and> (fst (Uploader_Init new_uploader us) = InvalidArgument \<longleftrightarrow> params_rejected us)
       \<and> (fst (Uploader_Init new_uploader us) = Success \<longleftrightarrow> \<not> params_rejected us)"
proof -
  have a: "params_rejected us \<longleftrightarrow>
            (CHR ''?'' \<notin> set (target_url us) \<and> (stream_id us = [] \<or> stream_name us = []))"
    using assms by (simp add: params_rejected_iff)
  have b: "CHR ''?'' \<in> set (target_url us) \<longrightarrow> \<not> params_rejected us"
    by (simp add: params_rejected_iff)
  have c: "\<forall>argv cfg0 cfg env.
             parse_command_line argv cfg0 = Returned cfg \<and> uploader_settings cfg = us \<longrightarrow>
               main argv cfg0 env =
                 (if params_rejected us then Returned (EXIT_FAILURE, [])
                  else Returned (fst (encoder_main cfg env), snd (snd (encoder_main cfg env))))"
    using main_after_parse by blast
  have d: "(fst (Uploader_Init new_uploader us) = InvalidArgument \<longleftrightarrow> params_rejected us)
       \<and> (fst (Uploader_Init new_uploader us) = Success \<longleftrightarrow> \<not> params_rejected us)"
    using assms by (simp add: Uploader_Init_def new_uploader_def params_rejected_def)
  show ?thesis using a b c d by blast
qed

theorem main_requires_stream_ids_without_query_witness:
  "target_url ((uploader_settings empty_config)\<lparr>target_url := ''http://example.com/up''\<rparr>) \<noteq> []
   \<and> params_rejected ((uploader_settings empty_config)\<lparr>target_url := ''http://example.com/up''\<rparr>)
   \<and> main [Some ''enc'', Some ''--url'', Some ''http://example.com/up''] empty_config env_ok
       = Returned (EXIT_FAILURE, [])
   \<and> fst (Uploader_Init new_uploader
            ((uploader_settings empty_config)\<lparr>target_url := ''http://example.com/up''\<rparr>))
       = InvalidArgument
   \<and> fst (Uploader_Init new_uploader
            ((uploader_settings empty_config)\<lparr>target_url := ''http://example.com/up?x=1''\<rparr>))
       = Success
   \<and> target_url ((uploader_settings empty_config)\<lparr>target_url := ''http://example.com/up?x=1''\<rparr>) \<noteq> []
   \<and> \<not> params_rejected ((uploader_settings empty_config)\<lparr>target_url := ''http://example.com/up?x=1''\<rparr>)
   \<and> main [Some ''enc'', Some ''--url'', Some ''http://example.com/up?x=1''] empty_config env_ok
       = Returned (EXIT_SUCCESS,
           [Init Encoder, Init Uploader, Run Uploader, Run Encoder, Stop Encoder, Stop Uploader])"
proof -
  let ?u1 = "(uploader_settings empty_config)\<lparr>target_url := ''http://example.com/up''\<rparr>"
  let ?u2 = "(uploader_settings empty_config)\<lparr>target_url := ''http://example.com/up?x=1''\<rparr>"
  have n1: "target_url ?u1 \<noteq> []" by simp
  have n2: "target_url ?u2 \<noteq> []" by simp
  have p1: "parse_command_line [Some ''enc'', Some ''--url'', Some ''http://example.com/up'']
              empty_config = Returned (empty_config\<lparr>uploader_settings := ?u1\<rparr>)"
    by (simp add: parse_eval)
  have p2: "parse_command_line [Some ''enc'', Some ''--url'', Some ''http://example.com/up?x=1'']
              empty_config = Returned (empty_config\<lparr>uploader_settings := ?u2\<rparr>)"
    by (simp add: parse_eval)
  note t1 = main_requires_stream_ids_without_query [OF n1]
  note t2 = main_requires_stream_ids_without_query [OF n2]
  have q1: "CHR ''?'' \<notin> set (target_url ?u1) \<and> (stream_id ?u1 = [] \<or> stream_name ?u1 = [])"
    by (simp add: empty_config_def)
  have q2: "CHR ''?'' \<in> set (target_url ?u2)" by simp
  from t1 q1 have r1: "params_rejected ?u1" by blast
  from t2 q2 have r2: "\<not> params_rejected ?u2" by blast
  have us1: "uploader_settings (empty_config\<lparr>uploader_settings := ?u1\<rparr>) = ?u1" by simp
  have us2: "uploader_settings (empty_config\<lparr>uploader_settings := ?u2\<rparr>) = ?u2" by simp
  from t1 p1 us1 have m1: "main [Some ''enc'', Some ''--url'', Some ''http://example.com/up'']
      empty_config env_ok =
        (if params_rejected ?u1 then Returned (EXIT_FAILURE, [])
         else Returned (fst (encoder_main (empty_config\<lparr>uploader_settings := ?u1\<rparr>) env_ok),
                        snd (snd (encoder_main (empty_config\<lparr>uploader_settings := ?u1\<rparr>) env_ok))))"
    by blast
  from t2 p2 us2 have m2: "main [Some ''enc'', Some ''--url'', Some ''http://example.com/up?x=1'']
      empty_config env_ok =
        (if params_rejected ?u2 then Returned (EXIT_FAILURE, [])
         else Returned (fst (encoder_main (empty_config\<lparr>uploader_settings := ?u2\<rparr>) env_ok),
                        snd (snd (encoder_main (empty_config\<lparr>uploader_settings := ?u2\<rparr>) env_ok))))"
    by blast
  have e2: "encoder_main (empty_config\<lparr>uploader_settings := ?u2\<rparr>) env_ok =
     (EXIT_SUCCESS, empty_config\<lparr>uploader_settings := ?u2\<rparr>,
      [Init Encoder, Init Uploader, Run Uploader, Run Encoder, Stop Encoder, Stop Uploader])"
    by (simp add: encoder_main_def start_uploader_def env_ok_def)
  from t1 r1 have i1: "fst (Uploader_Init new_uploader ?u1) = InvalidArgument" by blast
  from t2 r2 have i2: "fst (Uploader_Init new_uploader ?u2) = Success" by blast
  show ?thesis using n1 n2 r1 r2 m1 m2 e2 i1 i2 by simp
qed

text \<open>
  C4. Once the uploader's own \<open>Init\<close> has succeeded, \<open>start_uploader\<close> rewrites a target URL
  that has no query string: it appends \<open>?ns=\<close> and the stream name, \<open>&id=\<close> and the stream
  id, the agent marker \<open>&agent=p\<close> and the item-tag marker \<open>&itag=43\<close>, in this order, and
  changes nothing else. A URL that already has a query string is left as it is.
\<close>

theorem start_uploader_appends_query_string:
  "(init_status = 0 \<and> CHR ''?'' \<notin> set (target_url (uploader_settings cfg)) \<longrightarrow>
      fst (snd (start_uploader cfg init_status run_status)) =
        cfg\<lparr>uploader_settings := (uploader_settings cfg)\<lparr>target_url :=
          target_url (uploader_settings cfg) @ ''?ns='' @ stream_name (uploader_settings cfg)
            @ ''&id='' @ stream_id (uploader_settings cfg) @ ''&agent=p'' @ ''&itag=43''\<rparr>\<rparr>)
   \<and> (CHR ''?'' \<in> set (target_url (uploader_settings cfg)) \<longrightarrow>
        fst (snd (start_uploader cfg init_status run_status)) = cfg)
   \<and> (init_status \<noteq> 0 \<longrightarrow> fst (snd (start_uploader cfg init_status run_status)) = cfg)"
  by (simp add: start_uploader_def find_chr_None kAgentQueryFragment_def
        kWebmItagQueryFragment_def Let_def)

theorem start_uploader_appends_query_string_witness:
  "target_url (uploader_settings (fst (snd (start_uploader
      (empty_config\<lparr>uploader_settings := (uploader_settings empty_config)
         \<lparr>target_url := ''http://example.com/up'', stream_name := ''live'', stream_id := ''42''\<rparr>\<rparr>)
      0 0))))
     = ''http://example.com/up?ns=live&id=42&agent=p&itag=43''
   \<and> fst (snd (start_uploader
      (empty_config\<lparr>uploader_settings := (uploader_settings empty_config)
         \<lparr>target_url := ''http://example.com/up?x=1''\<rparr>\<rparr>) 0 0))
     = empty_config\<lparr>uploader_settings := (uploader_settings empty_config)
         \<lparr>target_url := ''http://example.com/up?x=1''\<rparr>\<rparr>"
proof -
  let ?c1 = "empty_config\<lparr>uploader_settings := (uploader_settings empty_config)
         \<lparr>target_url := ''http://example.com/up'', stream_name := ''live'', stream_id := ''42''\<rparr>\<rparr>"
  let ?c2 = "empty_config\<lparr>uploader_settings := (uploader_settings empty_config)
         \<lparr>target_url := ''http://example.com/up?x=1''\<rparr>\<rparr>"
  have h1: "(0::int) = 0 \<and> CHR ''?'' \<notin> set (target_url (uploader_settings ?c1))" by simp
  have h2: "CHR ''?'' \<in> set (target_url (uploader_settings ?c2))" by simp
  from start_uploader_appends_query_string [of 0 ?c1 0] h1
  have a: "fst (snd (start_uploader ?c1 0 0)) =
        ?c1\<lparr>uploader_settings := (uploader_settings ?c1)\<lparr>target_url :=
          target_url (uploader_settings ?c1) @ ''?ns='' @ stream_name (uploader_settings ?c1)
            @ ''&id='' @ stream_id (uploader_settings ?c1) @ ''&agent=p'' @ ''&itag=43''\<rparr>\<rparr>"
    by blast
  from start_uploader_appends_query_string [of 0 ?c2 0] h2
  have b: "fst (snd (start_uploader ?c2 0 0)) = ?c2" by blast
  show ?thesis unfolding a b by simp
qed

section \<open>Facts about the chunk buffer\<close>

lemma Write_capacity: "capacity (snd (Write cb bytes b)) = capacity cb"
  by (simp add: Write_def)

lemma ReadChunk_capacity: "capacity (fst (snd (ReadChunk cb len))) = capacity cb"
  by (simp add: ReadChunk_def split: list.splits)

lemma Write_bounded:
  "int (buffered_bytes cb) \<le> capacity cb \<Longrightarrow>
     int (buffered_bytes (snd (Write cb bytes b))) \<le> capacity (snd (Write cb bytes b))"
  by (simp add: Write_def buffered_bytes_def)

lemma ReadChunk_bounded:
  "int (buffered_bytes cb) \<le> capacity cb \<Longrightarrow>
     int (buffered_bytes (fst (snd (ReadChunk cb len)))) \<le> capacity (fst (snd (ReadChunk cb len)))"
  by (cases "ready cb") (auto simp: ReadChunk_def buffered_bytes_def)

lemma apply_op_bounded:
  "int (buffered_bytes cb) \<le> capacity cb \<Longrightarrow>
     int (buffered_bytes (apply_op cb op)) \<le> capacity (apply_op cb op)"
  by (cases op) (simp_all add: Write_bounded ReadChunk_bounded)

lemma ops_bounded:
  "int (buffered_bytes cb) \<le> capacity cb \<Longrightarrow>
     int (buffered_bytes (foldl apply_op cb ops)) \<le> capacity (foldl apply_op cb ops)"
  by (induction ops arbitrary: cb) (simp_all add: apply_op_bounded)

lemma ops_capacity: "capacity (foldl apply_op cb ops) = capacity cb"
proof (induction ops arbitrary: cb)
  case Nil
  show ?case by simp
next
  case (Cons op ops)
  show ?case using Cons.IH [of "apply_op cb op"]
    by (cases op) (simp_all add: Write_capacity ReadChunk_capacity)
qed

lemma ReadChunk_ready:
  "ready cb = c # cs \<Longrightarrow>
     ReadChunk cb len =
       (if len \<noteq> int (length c) then (InvalidArgument, cb, []) else (Success, cb\<lparr>ready := cs\<rparr>, c))"
  by (simp add: ReadChunk_def)

text \<open>
  C6. With a chunk ready, \<open>ReadChunk\<close> fails with \<open>InvalidArgument\<close> and returns the buffer
  as it was, with nothing copied, whenever the length differs from the length of the oldest
  ready chunk. With that exact length it copies the oldest ready chunk whole and removes it
  from the queue, leaving the other chunks and the capacity as they were.
\<close>

theorem ReadChunk_exact_length:
  assumes "ready cb = c # cs"
  shows "(len \<noteq> int (length c) \<longrightarrow> ReadChunk cb len = (InvalidArgument, cb, []))
       \<and> (len = int (length c) \<longrightarrow> ReadChunk cb len = (Success, cb\<lparr>ready := cs\<rparr>, c))
       \<and> IsChunkReady cb = (True, int (length c))
       \<and> (fst (ReadChunk cb len) = Success \<longrightarrow>
            ready cb = snd (snd (ReadChunk cb len)) # ready (fst (snd (ReadChunk cb len))))"
  using assms by (simp add: ReadChunk_def IsChunkReady_def)

theorem ReadChunk_exact_length_witness:
  "ready \<lparr>capacity = 10, ready = [[1, 2, 3], [4, 5]], assembling = [6]\<rparr> = [1, 2, 3] # [[4, 5]]
   \<and> ReadChunk \<lparr>capacity = 10, ready = [[1, 2, 3], [4, 5]], assembling = [6]\<rparr> 2
       = (InvalidArgument, \<lparr>capacity = 10, ready = [[1, 2, 3], [4, 5]], assembling = [6]\<rparr>, [])
   \<and> ReadChunk \<lparr>capacity = 10, ready = [[1, 2, 3], [4, 5]], assembling = [6]\<rparr> 3
       = (Success, \<lparr>capacity = 10, ready = [[4, 5]], assembling = [6]\<rparr>, [1, 2, 3])"
proof -
  let ?cb = "\<lparr>capacity = 10, ready = [[1, 2, 3], [4, 5 :: byte]], assembling = [6]\<rparr>"
  have h: "ready ?cb = [1, 2, 3] # [[4, 5]]" by simp
  note t2 = ReadChunk_exact_length [OF h, of 2]
  note t3 = ReadChunk_exact_length [OF h, of 3]
  have n2: "(2::int) \<noteq> int (length [1, 2, 3 :: byte])" by simp
  have n3: "(3::int) = int (length [1, 2, 3 :: byte])" by simp
  from t2 n2 have a: "ReadChunk ?cb 2 = (InvalidArgument, ?cb, [])" by blast
  from t3 n3 have b: "ReadChunk ?cb 3 = (Success, ?cb\<lparr>ready := [[4, 5]]\<rparr>, [1, 2, 3])" by blast
  show ?thesis using h a b by simp
qed

section \<open>Facts about the HTTP client\<close>

lemma completed_chunks_append:
  "completed_chunks (xs @ ys) = completed_chunks xs @ completed_chunks ys"
  by (induction xs rule: completed_chunks.induct) simp_all

lemma uploaded_chunks_append:
  "uploaded_chunks (xs @ ys) = uploaded_chunks xs @ uploaded_chunks ys"
  by (induction xs rule: uploaded_chunks.induct) simp_all

lemma runs_append: "runs (xs @ ys) = runs xs @ runs ys"
  by (induction xs rule: runs.induct) simp_all

lemma stops_append: "stops (xs @ ys) = stops xs @ stops ys"
  by (induction xs rule: stops.induct) simp_all

lemma one_in_flight_append:
  "one_in_flight b (xs @ ys) \<longleftrightarrow> one_in_flight b xs \<and> one_in_flight (foldl busy_step b xs) ys"
  by (induction b xs rule: one_in_flight.induct) auto

lemmas trace_append =
  completed_chunks_append uploaded_chunks_append runs_append stops_append one_in_flight_append

lemma worker_phase_inv: "loop_inv s \<Longrightarrow> loop_inv (worker_phase t s)"
  by (auto simp: loop_inv_def worker_phase_def transfer_ended_def trace_append)

lemma produce_phase_inv: "loop_inv s \<Longrightarrow> loop_inv (state_of (produce_phase t s))"
  by (auto simp: loop_inv_def produce_phase_def Write_def Let_def trace_append)

lemma consume_phase_inv: "loop_inv s \<Longrightarrow> loop_inv (state_of (consume_phase t s))"
  by (cases "ready (chunk_buffer s)")
     (auto simp: loop_inv_def consume_phase_def IsChunkReady_def ReadChunk_def UploadBuffer_def
        UploadComplete_def Let_def trace_append)

lemma client_iteration_inv: "loop_inv s \<Longrightarrow> loop_inv (state_of (client_iteration t s))"
proof -
  assume i: "loop_inv s"
  show ?thesis
  proof (cases "produce_phase t (worker_phase t s)")
    case (Continue s')
    from produce_phase_inv [OF worker_phase_inv [OF i], of t t] Continue have "loop_inv s'" by simp
    from consume_phase_inv [OF this, of t] Continue show ?thesis
      by (simp add: client_iteration_def)
  next
    case (Break s')
    from produce_phase_inv [OF worker_phase_inv [OF i], of t t] Break show ?thesis
      by (simp add: client_iteration_def)
  qed
qed

lemma client_loop_inv: "loop_inv s \<Longrightarrow> loop_inv (client_loop ts s)"
proof (induction ts arbitrary: s)
  case Nil
  then show ?case by simp
next
  case (Cons t ts)
  from client_iteration_inv [OF Cons.prems, of t]
  show ?case by (cases "client_iteration t s") (simp_all add: Cons.IH)
qed

text \<open>The loop adds no call of \<open>Run\<close> or \<open>Stop\<close> to the trace.\<close>

lemma worker_phase_calls:
  "runs (trace (worker_phase t s)) = runs (trace s) \<and> stops (trace (worker_phase t s)) = stops (trace s)"
  by (simp add: worker_phase_def trace_append)

lemma produce_phase_calls:
  "runs (trace (state_of (produce_phase t s))) = runs (trace s)
   \<and> stops (trace (state_of (produce_phase t s))) = stops (trace s)"
  by (simp add: produce_phase_def Let_def trace_append split: prod.splits)

lemma consume_phase_calls:
  "runs (trace (state_of (consume_phase t s))) = runs (trace s)
   \<and> stops (trace (state_of (consume_phase t s))) = stops (trace s)"
  by (simp add: consume_phase_def Let_def trace_append split: prod.splits bool.splits)

lemma client_iteration_calls:
  "runs (trace (state_of (client_iteration t s))) = runs (trace s)
   \<and> stops (trace (state_of (client_iteration t s))) = stops (trace s)"
proof (cases "produce_phase t (worker_phase t s)")
  case (Continue s')
  with produce_phase_calls [of t "worker_phase t s"] worker_phase_calls [of t s]
    consume_phase_calls [of t s']
  show ?thesis by (simp add: client_iteration_def)
next
  case (Break s')
  with produce_phase_calls [of t "worker_phase t s"] worker_phase_calls [of t s]
  show ?thesis by (simp add: client_iteration_def)
qed

lemma client_loop_calls:
  "runs (trace (client_loop ts s)) = runs (trace s)
   \<and> stops (trace (client_loop ts s)) = stops (trace s)"
proof (induction ts arbitrary: s)
  case Nil
  show ?case by simp
next
  case (Cons t ts)
  from client_iteration_calls [of t s]
  show ?case by (cases "client_iteration t s") (simp_all add: Cons.IH)
qed

lemma start_uploader_Success:
  assumes "http_client_start_uploader new_uploader settings tok = (Success, u, evs)"
  shows "state u = Running \<and> in_flight u = None \<and> evs = [Init Uploader, Run Uploader]"
  using assms
  by (auto simp: http_client_start_uploader_def Uploader_Init_def Uploader_Run_def new_uploader_def
        split: if_splits prod.splits scheduler_state.splits)

lemma start_uploader_events:
  "snd (snd (http_client_start_uploader u settings tok)) = [Init Uploader]
   \<or> snd (snd (http_client_start_uploader u settings tok)) = [Init Uploader, Run Uploader]"
  by (simp add: http_client_start_uploader_def split: prod.splits)

lemma loop_entry_inv: "client_started settings env \<Longrightarrow> loop_inv (loop_entry settings env)"
proof -
  assume s: "client_started settings env"
  obtain st u evs where h: "http_client_start_uploader new_uploader settings (client_transport_ok env) = (st, u, evs)"
    by (cases "http_client_start_uploader new_uploader settings (client_transport_ok env)") auto
  with s have "st = Success" by (simp add: client_started_def)
  with h start_uploader_Success [of settings "client_transport_ok env" u evs]
  have "in_flight u = None" by simp
  with h show ?thesis by (simp add: loop_inv_def loop_entry_def)
qed

lemma client_main_started:
  assumes "client_started settings env"
  shows "client_main settings env =
     (exit_status (client_loop (ticks env) (loop_entry settings env)),
      trace (client_loop (ticks env) (loop_entry settings env)) @ [Stop Encoder, Stop Uploader],
      Some ((client_loop (ticks env) (loop_entry settings env))
         \<lparr>uploader := Uploader_Stop (uploader (client_loop (ticks env) (loop_entry settings env)))\<rparr>))"
proof -
  obtain st u evs where h: "http_client_start_uploader new_uploader settings (client_transport_ok env) = (st, u, evs)"
    by (cases "http_client_start_uploader new_uploader settings (client_transport_ok env)") auto
  with assms have st: "st = Success" by (simp add: client_started_def)
  with h start_uploader_Success [of settings "client_transport_ok env" u evs]
  have evs: "evs = [Init Uploader, Run Uploader]" by simp
  from assms have r: "CreateFile_status env = 0" "client_encoder_Init_status env = 0"
     "client_encoder_Run_status env = 0" "read_buf_ok env" "0 < buffer_capacity env"
    by (simp_all add: client_started_def)
  from r(5) have nle: "\<not> buffer_capacity env \<le> 0" by simp
  show ?thesis
    by (simp add: client_main_def r nle h st evs start_encoder_def ChunkBuffer_Init_def
          loop_entry_def Let_def)
qed

lemma client_main_not_started:
  assumes "\<not> client_started settings env"
  shows "snd (snd (client_main settings env)) = None
       \<and> completed_chunks (fst (snd (client_main settings env))) = []
       \<and> uploaded_chunks (fst (snd (client_main settings env))) = []
       \<and> one_in_flight False (fst (snd (client_main settings env)))"
proof -
  obtain st u evs where h: "http_client_start_uploader new_uploader settings (client_transport_ok env) = (st, u, evs)"
    by (cases "http_client_start_uploader new_uploader settings (client_transport_ok env)") auto
  from start_uploader_events [of new_uploader settings "client_transport_ok env"] h
  have e: "evs = [Init Uploader] \<or> evs = [Init Uploader, Run Uploader]" by simp
  from assms h have n: "CreateFile_status env \<noteq> 0 \<or> client_encoder_Init_status env \<noteq> 0
     \<or> client_encoder_Run_status env \<noteq> 0 \<or> st \<noteq> Success \<or> \<not> read_buf_ok env \<or> \<not> 0 < buffer_capacity env"
    by (auto simp: client_started_def)
  show ?thesis
    using n e
    by (auto simp: client_main_def h start_encoder_def ChunkBuffer_Init_def Let_def)
qed

lemmas client_eval =
  client_main_def start_encoder_def http_client_start_uploader_def Uploader_Init_def
  Uploader_Run_def Uploader_Stop_def new_uploader_def ChunkBuffer_Init_def client_iteration_def
  worker_phase_def produce_phase_def consume_phase_def Write_def ReadChunk_def IsChunkReady_def
  UploadBuffer_def UploadComplete_def transfer_ended_def buffered_bytes_def kReadBufferSize_def
  settings_1_def client_env_1_def tick_idle_def empty_config_def Let_def

lemma client_trace_1:
  "fst (snd (client_main settings_1 client_env_1)) =
     [Init Encoder, Run Encoder, Init Uploader, Run Uploader,
      ChunkCompleted [1, 2], UploadStarted [1, 2], ChunkCompleted [3],
      TransferEnded, UploadStarted [3], Stop Encoder, Stop Uploader]"
  by (simp add: client_eval)

lemma client_started_1: "client_started settings_1 client_env_1"
  by (simp add: client_started_def client_eval)

lemma write_all_ready: "ready (fst (write_all cb ws)) = ready cb @ snd (write_all cb ws)"
proof (induction ws arbitrary: cb)
  case Nil
  show ?case by simp
next
  case (Cons w ws)
  obtain bytes boundary where w: "w = (bytes, boundary)" by (cases w) auto
  obtain st cb' where r: "Write cb bytes boundary = (st, cb')"
    by (cases "Write cb bytes boundary") auto
  then have "ready cb' =
      ready cb @ (if st = Success \<and> boundary then [assembling cb @ bytes] else [])"
    by (auto simp: Write_def split: if_splits)
  with Cons.IH [of cb'] show ?case
    by (auto simp: w r split: prod.splits)
qed

lemma read_all_take: "snd (read_all cb n) = take n (ready cb)"
proof (induction n arbitrary: cb)
  case 0
  show ?case by simp
next
  case (Suc n)
  show ?case
  proof (cases "ready cb")
    case Nil
    then show ?thesis by (simp add: IsChunkReady_def)
  next
    case (Cons c cs)
    with Suc.IH [of "cb\<lparr>ready := cs\<rparr>"] show ?thesis
      by (auto simp: IsChunkReady_def ReadChunk_def split: prod.splits)
  qed
qed

lemma client_main_trace:
  "one_in_flight False (fst (snd (client_main settings env)))
   \<and> prefix (uploaded_chunks (fst (snd (client_main settings env))))
        (completed_chunks (fst (snd (client_main settings env))))
   \<and> (\<forall>s. snd (snd (client_main settings env)) = Some s \<longrightarrow>
         completed_chunks (fst (snd (client_main settings env)))
           = uploaded_chunks (fst (snd (client_main settings env))) @ ready (chunk_buffer s))"
proof (cases "client_started settings env")
  case False
  from client_main_not_started [OF False] show ?thesis by simp
next
  case True
  let ?s = "client_loop (ticks env) (loop_entry settings env)"
  from client_loop_inv [OF loop_entry_inv [OF True], of "ticks env"]
  have inv: "loop_inv ?s" .
  then have c: "completed_chunks (trace ?s) = uploaded_chunks (trace ?s) @ ready (chunk_buffer ?s)"
    and o: "one_in_flight False (trace ?s)"
    by (simp_all add: loop_inv_def)
  show ?thesis
    using c o by (simp add: client_main_started [OF True] trace_append)
qed

text \<open>
  C1. Chunks leave the buffer in the order in which the producer completed them: after any
  sequence of writes, reading \<open>n\<close> chunks returns the first \<open>n\<close> of the chunks that were
  ready before, followed by the chunks the writes completed, in that order. In every run of
  \<open>client_main\<close> the chunks whose upload was started are, in order, an initial part of the
  chunks completed, the rest being the ready queue at the end of the loop; and no upload is
  started while an earlier one is open, that is, before the worker has ended it or the
  uploader was stopped.
\<close>

theorem chunks_uploaded_in_write_order:
  "snd (read_all (fst (write_all cb ws)) n) = take n (ready cb @ snd (write_all cb ws))
   \<and> prefix (uploaded_chunks (fst (snd (client_main settings env))))
        (completed_chunks (fst (snd (client_main settings env))))
   \<and> one_in_flight False (fst (snd (client_main settings env)))
   \<and> (\<forall>s. snd (snd (client_main settings env)) = Some s \<longrightarrow>
         completed_chunks (fst (snd (client_main settings env)))
           = uploaded_chunks (fst (snd (client_main settings env))) @ ready (chunk_buffer s))"
  using client_main_trace [of settings env]
  by (simp add: read_all_take write_all_ready)

theorem chunks_uploaded_in_write_order_witness:
  "snd (read_all (fst (write_all \<lparr>capacity = 10, ready = [], assembling = []\<rparr>
           [([1], False), ([2], True), ([3], True), ([4], False)])) 2) = [[1, 2], [3]]
   \<and> uploaded_chunks (fst (snd (client_main settings_1 client_env_1))) = [[1, 2], [3]]
   \<and> completed_chunks (fst (snd (client_main settings_1 client_env_1))) = [[1, 2], [3]]
   \<and> prefix [[1, 2], [3 :: byte]] [[1, 2], [3]]
   \<and> one_in_flight False
        [Init Encoder, Run Encoder, Init Uploader, Run Uploader,
         ChunkCompleted [1, 2], UploadStarted [1, 2], ChunkCompleted [3],
         TransferEnded, UploadStarted [3], Stop Encoder, Stop Uploader]"
proof -
  let ?cb = "\<lparr>capacity = 10, ready = [], assembling = []\<rparr>"
  let ?ws = "[([1 :: byte], False), ([2], True), ([3], True), ([4], False)]"
  note t = chunks_uploaded_in_write_order [of ?cb ?ws 2 settings_1 client_env_1]
  have w: "snd (write_all ?cb ?ws) = [[1, 2], [3]]"
    by (simp add: Write_def buffered_bytes_def)
  from t have "snd (read_all (fst (write_all ?cb ?ws)) 2) = take 2 (ready ?cb @ snd (write_all ?cb ?ws))"
    by (rule conjunct1)
  then have a: "snd (read_all (fst (write_all ?cb ?ws)) 2) = [[1, 2], [3]]"
    unfolding w by simp
  have u: "uploaded_chunks (fst (snd (client_main settings_1 client_env_1))) = [[1, 2], [3]]"
    by (simp add: client_trace_1)
  have c: "completed_chunks (fst (snd (client_main settings_1 client_env_1))) = [[1, 2], [3]]"
    by (simp add: client_trace_1)
  from t have p: "prefix [[1, 2], [3 :: byte]] [[1, 2], [3]]"
    unfolding u c by blast
  from t have o: "one_in_flight False
        [Init Encoder, Run Encoder, Init Uploader, Run Uploader,
         ChunkCompleted [1, 2], UploadStarted [1, 2], ChunkCompleted [3],
         TransferEnded, UploadStarted [3], Stop Encoder, Stop Uploader]"
    unfolding client_trace_1 by blast
  show ?thesis using a u c p o by blast
qed

lemma in_flight_kept:
  "in_flight u \<noteq> None \<Longrightarrow> op \<noteq> WorkerTransferEnded \<Longrightarrow> op \<noteq> CallStop \<Longrightarrow>
     in_flight (uploader_step u op) \<noteq> None"
  by (cases op)
     (auto simp: Uploader_Init_def Uploader_Run_def UploadBuffer_def split: scheduler_state.splits)

lemma in_flight_kept_ops:
  "in_flight u \<noteq> None \<Longrightarrow> WorkerTransferEnded \<notin> set ops \<Longrightarrow> CallStop \<notin> set ops \<Longrightarrow>
     in_flight (foldl uploader_step u ops) \<noteq> None"
proof (induction ops arbitrary: u)
  case Nil
  then show ?case by simp
next
  case (Cons op ops)
  from Cons.prems have "op \<noteq> WorkerTransferEnded" "op \<noteq> CallStop" by auto
  from in_flight_kept [OF Cons.prems(1) this]
  have "in_flight (uploader_step u op) \<noteq> None" .
  from Cons.IH [OF this] Cons.prems show ?case by simp
qed

lemma busy_pass:
  assumes "in_flight (uploader s) \<noteq> None" and "\<not> transfer_ends t"
  shows "uploader (state_of (client_iteration t s)) = uploader s
       \<and> uploaded_chunks (trace (state_of (client_iteration t s))) = uploaded_chunks (trace s)"
proof -
  have w: "worker_phase t s = s" using assms(2) by (simp add: worker_phase_def)
  show ?thesis
  proof (cases "produce_phase t s")
    case (Break s')
    then have "uploader s' = uploader s \<and> trace s' = trace s"
      by (auto simp: produce_phase_def Let_def split: prod.splits if_splits)
    with Break show ?thesis by (simp add: client_iteration_def w)
  next
    case (Continue s')
    then have u: "uploader s' = uploader s"
      and tr: "uploaded_chunks (trace s') = uploaded_chunks (trace s)"
      by (auto simp: produce_phase_def Let_def trace_append split: prod.splits if_splits)
    from u assms(1) have "consume_phase t s' = Continue s'"
      by (auto simp: consume_phase_def UploadComplete_def)
    with Continue u tr show ?thesis by (simp add: client_iteration_def w)
  qed
qed

text \<open>
  C2. \<open>UploadComplete\<close> is true right after \<open>Init\<close> and \<open>Run\<close> have succeeded on a new
  uploader, and so when \<open>client_main\<close> enters its loop. After a successful \<open>UploadBuffer\<close> it is
  false, and it stays false through any calls until the worker ends the transfer or \<open>Stop\<close> is
  called; when the worker ends the transfer it is true again. \<open>client_main\<close> submits nothing
  while a transfer is open: a pass that finds \<open>UploadComplete\<close> false goes on with the state
  as it is, and a pass during which the transfer does not end leaves the uploader and the
  list of uploads as they were.
\<close>

theorem upload_complete_one_in_flight:
  "(Uploader_Init new_uploader settings = (Success, u1) \<and> Uploader_Run u1 True = (Success, u2) \<longrightarrow>
      UploadComplete u2)
   \<and> (client_started settings env \<longrightarrow> UploadComplete (uploader (loop_entry settings env)))
   \<and> (UploadBuffer u bytes = (Success, u') \<longrightarrow>
        \<not> UploadComplete u' \<and> in_flight u' = Some bytes \<and> UploadComplete (transfer_ended u'))
   \<and> (UploadBuffer u bytes = (Success, u') \<and> WorkerTransferEnded \<notin> set ops
        \<and> CallStop \<notin> set ops \<longrightarrow>
          \<not> UploadComplete (foldl uploader_step u' ops))
   \<and> (\<not> UploadComplete (uploader s) \<longrightarrow> consume_phase t s = Continue s)
   \<and> (in_flight (uploader s) \<noteq> None \<and> \<not> transfer_ends t \<longrightarrow>
        uploader (state_of (client_iteration t s)) = uploader s
        \<and> uploaded_chunks (trace (state_of (client_iteration t s))) = uploaded_chunks (trace s))"
proof -
  have a: "Uploader_Init new_uploader settings = (Success, u1) \<and> Uploader_Run u1 True = (Success, u2) \<longrightarrow>
      UploadComplete u2"
    by (auto simp: Uploader_Init_def Uploader_Run_def new_uploader_def UploadComplete_def
          split: if_splits scheduler_state.splits)
  have b: "client_started settings env \<longrightarrow> UploadComplete (uploader (loop_entry settings env))"
  proof
    assume s: "client_started settings env"
    obtain st u evs where h: "http_client_start_uploader new_uploader settings (client_transport_ok env) = (st, u, evs)"
      by (cases "http_client_start_uploader new_uploader settings (client_transport_ok env)") auto
    with s have "st = Success" by (simp add: client_started_def)
    with h start_uploader_Success [of settings "client_transport_ok env" u evs]
    have "state u = Running \<and> in_flight u = None" by simp
    with h show "UploadComplete (uploader (loop_entry settings env))"
      by (simp add: loop_entry_def UploadComplete_def)
  qed
  have c: "UploadBuffer u bytes = (Success, u') \<longrightarrow>
        \<not> UploadComplete u' \<and> in_flight u' = Some bytes \<and> UploadComplete (transfer_ended u')"
    by (auto simp: UploadBuffer_def UploadComplete_def transfer_ended_def split: if_splits)
  have d: "UploadBuffer u bytes = (Success, u') \<and> WorkerTransferEnded \<notin> set ops
        \<and> CallStop \<notin> set ops \<longrightarrow>
          \<not> UploadComplete (foldl uploader_step u' ops)"
  proof
    assume h: "UploadBuffer u bytes = (Success, u') \<and> WorkerTransferEnded \<notin> set ops
        \<and> CallStop \<notin> set ops"
    then have "in_flight u' \<noteq> None"
      by (auto simp: UploadBuffer_def split: if_splits)
    from in_flight_kept_ops [OF this] h
    show "\<not> UploadComplete (foldl uploader_step u' ops)"
      by (simp add: UploadComplete_def)
  qed
  have e: "\<not> UploadComplete (uploader s) \<longrightarrow> consume_phase t s = Continue s"
    by (simp add: consume_phase_def)
  have f: "in_flight (uploader s) \<noteq> None \<and> \<not> transfer_ends t \<longrightarrow>
        uploader (state_of (client_iteration t s)) = uploader s
        \<and> uploaded_chunks (trace (state_of (client_iteration t s))) = uploaded_chunks (trace s)"
    using busy_pass [of s t] by blast
  show ?thesis using a b c d e f by blast
qed

theorem upload_complete_one_in_flight_witness:
  "UploadComplete (snd (Uploader_Run (snd (Uploader_Init new_uploader settings_1)) True))
   \<and> UploadComplete (uploader (loop_entry settings_1 client_env_1))
   \<and> \<not> UploadComplete (snd (UploadBuffer (uploader (loop_entry settings_1 client_env_1)) [1, 2]))
   \<and> UploadComplete
        (transfer_ended (snd (UploadBuffer (uploader (loop_entry settings_1 client_env_1)) [1, 2])))
   \<and> \<not> UploadComplete
        (foldl uploader_step (snd (UploadBuffer (uploader (loop_entry settings_1 client_env_1)) [1, 2]))
           [CallUploadBuffer [3], CallRun True])
   \<and> consume_phase tick_idle
        ((loop_entry settings_1 client_env_1)
           \<lparr>uploader := snd (UploadBuffer (uploader (loop_entry settings_1 client_env_1)) [1, 2])\<rparr>)
       = Continue
        ((loop_entry settings_1 client_env_1)
           \<lparr>uploader := snd (UploadBuffer (uploader (loop_entry settings_1 client_env_1)) [1, 2])\<rparr>)"
proof -
  let ?u1 = "snd (Uploader_Init new_uploader settings_1)"
  let ?u2 = "snd (Uploader_Run ?u1 True)"
  let ?u = "uploader (loop_entry settings_1 client_env_1)"
  let ?u' = "snd (UploadBuffer ?u [1, 2])"
  let ?ops = "[CallUploadBuffer [3], CallRun True]"
  let ?s = "(loop_entry settings_1 client_env_1)\<lparr>uploader := ?u'\<rparr>"
  note t = upload_complete_one_in_flight
    [of settings_1 ?u1 ?u2 client_env_1 ?u "[1, 2]" ?u' ?ops ?s tick_idle]
  have h1: "Uploader_Init new_uploader settings_1 = (Success, ?u1)
            \<and> Uploader_Run ?u1 True = (Success, ?u2)"
    by (simp add: client_eval)
  have h2: "client_started settings_1 client_env_1" by (rule client_started_1)
  have h3: "UploadBuffer ?u [1, 2] = (Success, ?u')"
    by (simp add: loop_entry_def client_eval)
  have h4: "WorkerTransferEnded \<notin> set ?ops \<and> CallStop \<notin> set ?ops"
    by simp
  from t h1 have a: "UploadComplete ?u2" by blast
  from t h2 have b: "UploadComplete ?u" by blast
  from t h3 have c: "\<not> UploadComplete ?u' \<and> UploadComplete (transfer_ended ?u')" by blast
  from t h3 h4 have d: "\<not> UploadComplete (foldl uploader_step ?u' ?ops)" by blast
  have "\<not> UploadComplete (uploader ?s)" using c by simp
  with t have e: "consume_phase tick_idle ?s = Continue ?s" by blast
  show ?thesis using a b c d e by blast
qed

lemma encoder_main_started:
  assumes "encoder_Init_status env = 0" and "uploader_Init_status env = 0"
    and "uploader_Run_status env = 0" and "encoder_Run_status env = 0"
  shows "snd (snd (encoder_main cfg env)) =
           [Init Encoder, Init Uploader, Run Uploader, Run Encoder, Stop Encoder, Stop Uploader]"
  using assms by (simp add: encoder_main_def start_uploader_def Let_def)

lemma client_main_calls:
  assumes "client_started settings env"
  shows "runs (fst (snd (client_main settings env))) = [Encoder, Uploader]
       \<and> stops (fst (snd (client_main settings env))) = [Encoder, Uploader]"
  using client_loop_calls [of "ticks env" "loop_entry settings env"]
  by (simp add: client_main_started [OF assms] trace_append loop_entry_def)

text \<open>
  C7, as the code has it. In a run that reaches the polling loop, \<open>Stop\<close> is called once on
  each component when the loop has ended, on the encoder first and on the uploader second.
  In \<open>encoder_main\<close> the uploader is run before the encoder, so this is the reverse of the
  order of start; in \<open>client_main\<close> the encoder is started before the uploader, so there it
  is the order of start itself.
\<close>

theorem stop_encoder_then_uploader:
  "(encoder_Init_status env = 0 \<and> uploader_Init_status env = 0
      \<and> uploader_Run_status env = 0 \<and> encoder_Run_status env = 0 \<longrightarrow>
        runs (snd (snd (encoder_main cfg env))) = [Uploader, Encoder]
        \<and> stops (snd (snd (encoder_main cfg env))) = [Encoder, Uploader]
        \<and> stops (snd (snd (encoder_main cfg env))) = rev (runs (snd (snd (encoder_main cfg env))))
        \<and> (\<exists>pre. snd (snd (encoder_main cfg env)) = pre @ [Stop Encoder, Stop Uploader]))
   \<and> (client_started settings cenv \<longrightarrow>
        runs (fst (snd (client_main settings cenv))) = [Encoder, Uploader]
        \<and> stops (fst (snd (client_main settings cenv))) = [Encoder, Uploader]
        \<and> stops (fst (snd (client_main settings cenv))) = runs (fst (snd (client_main settings cenv)))
        \<and> (\<exists>pre. fst (snd (client_main settings cenv)) = pre @ [Stop Encoder, Stop Uploader]))"
proof -
  have a: "encoder_Init_status env = 0 \<and> uploader_Init_status env = 0
      \<and> uploader_Run_status env = 0 \<and> encoder_Run_status env = 0 \<longrightarrow>
        runs (snd (snd (encoder_main cfg env))) = [Uploader, Encoder]
        \<and> stops (snd (snd (encoder_main cfg env))) = [Encoder, Uploader]
        \<and> stops (snd (snd (encoder_main cfg env))) = rev (runs (snd (snd (encoder_main cfg env))))
        \<and> (\<exists>pre. snd (snd (encoder_main cfg env)) = pre @ [Stop Encoder, Stop Uploader])"
    by (simp add: encoder_main_started)
  have b: "client_started settings cenv \<longrightarrow>
        runs (fst (snd (client_main settings cenv))) = [Encoder, Uploader]
        \<and> stops (fst (snd (client_main settings cenv))) = [Encoder, Uploader]
        \<and> stops (fst (snd (client_main settings cenv))) = runs (fst (snd (client_main settings cenv)))
        \<and> (\<exists>pre. fst (snd (client_main settings cenv)) = pre @ [Stop Encoder, Stop Uploader])"
  proof
    assume s: "client_started settings cenv"
    from client_main_calls [OF s] client_main_started [OF s]
    show "runs (fst (snd (client_main settings cenv))) = [Encoder, Uploader]
        \<and> stops (fst (snd (client_main settings cenv))) = [Encoder, Uploader]
        \<and> stops (fst (snd (client_main settings cenv))) = runs (fst (snd (client_main settings cenv)))
        \<and> (\<exists>pre. fst (snd (client_main settings cenv)) = pre @ [Stop Encoder, Stop Uploader])"
      by simp
  qed
  show ?thesis using a b by blast
qed

theorem stop_encoder_then_uploader_witness:
  "encoder_Init_status env_ok = 0 \<and> uploader_Init_status env_ok = 0
   \<and> uploader_Run_status env_ok = 0 \<and> encoder_Run_status env_ok = 0
   \<and> runs (snd (snd (encoder_main empty_config env_ok))) = [Uploader, Encoder]
   \<and> stops (snd (snd (encoder_main empty_config env_ok))) = [Encoder, Uploader]
   \<and> client_started settings_1 client_env_1
   \<and> runs (fst (snd (client_main settings_1 client_env_1))) = [Encoder, Uploader]
   \<and> stops (fst (snd (client_main settings_1 client_env_1))) = [Encoder, Uploader]"
proof -
  note t = stop_encoder_then_uploader [of env_ok empty_config settings_1 client_env_1]
  have h1: "encoder_Init_status env_ok = 0 \<and> uploader_Init_status env_ok = 0
   \<and> uploader_Run_status env_ok = 0 \<and> encoder_Run_status env_ok = 0"
    by (simp add: env_ok_def)
  from t h1 have a: "runs (snd (snd (encoder_main empty_config env_ok))) = [Uploader, Encoder]
   \<and> stops (snd (snd (encoder_main empty_config env_ok))) = [Encoder, Uploader]"
    by blast
  from t client_started_1 have b:
    "runs (fst (snd (client_main settings_1 client_env_1))) = [Encoder, Uploader]
     \<and> stops (fst (snd (client_main settings_1 client_env_1))) = [Encoder, Uploader]"
    by blast
  show ?thesis using h1 a b client_started_1 by blast
qed

text \<open>
  C7 with the reverse of the order of start does not hold of \<open>client_main\<close>: in the run
  below the loop is reached, the encoder is started first and the uploader second, and after
  the loop the encoder is stopped first, so the stops are not in the reverse of the order of
  start.
\<close>

theorem reverse_stop_order_counterexample:
  "client_started settings_1 client_env_1
   \<and> runs (fst (snd (client_main settings_1 client_env_1))) = [Encoder, Uploader]
   \<and> stops (fst (snd (client_main settings_1 client_env_1))) = [Encoder, Uploader]
   \<and> stops (fst (snd (client_main settings_1 client_env_1)))
       \<noteq> rev (runs (fst (snd (client_main settings_1 client_env_1))))"
  by (simp add: client_started_1 client_trace_1)

section \<open>A write that does not fit\<close>

lemma worker_phase_buffer:
  "chunk_buffer (worker_phase t s) = chunk_buffer s
   \<and> read_buffer_size (worker_phase t s) = read_buffer_size s
   \<and> completed_chunks (trace (worker_phase t s)) = completed_chunks (trace s)
   \<and> uploaded_chunks (trace (worker_phase t s)) = uploaded_chunks (trace s)"
  by (simp add: worker_phase_def trace_append)

lemma failed_BufferData_breaks:
  assumes "take (nat (read_buffer_size s)) (file_bytes t) \<noteq> []"
    and "int (buffered_bytes (chunk_buffer s)
              + length (take (nat (read_buffer_size s)) (file_bytes t))) > capacity (chunk_buffer s)"
  shows "client_iteration t s = Break (worker_phase t s)"
proof -
  let ?s1 = "worker_phase t s"
  from assms worker_phase_buffer [of t s]
  have "produce_phase t ?s1 = Break (?s1\<lparr>chunk_buffer := chunk_buffer ?s1\<rparr>)"
    by (simp add: produce_phase_def Write_def Let_def)
  then show ?thesis by (simp add: client_iteration_def)
qed

text \<open>
  C5, as the code has it. A write whose bytes would take the buffered size over the capacity
  fails with \<open>BufferFull\<close> and returns the buffer as it was. Any other write succeeds and
  stores all its bytes. From a buffer that \<open>Init\<close> has made, no sequence of writes and reads
  takes the buffered size over the capacity. The caller in \<open>client_main\<close> does not retry:
  a pass whose bytes do not fit breaks out of the polling loop, the passes after it are not
  made, and the buffer, the chunks completed and the uploads are as they were before it.
\<close>

theorem Write_fails_with_BufferFull:
  "(int (buffered_bytes cb + length bytes) > capacity cb \<longrightarrow>
      Write cb bytes b = (BufferFull, cb))
   \<and> (int (buffered_bytes cb + length bytes) \<le> capacity cb \<longrightarrow>
        fst (Write cb bytes b) = Success
        \<and> buffered_bytes (snd (Write cb bytes b)) = buffered_bytes cb + length bytes
        \<and> concat (ready (snd (Write cb bytes b))) @ assembling (snd (Write cb bytes b))
            = concat (ready cb) @ assembling cb @ bytes)
   \<and> (\<forall>c cb0 ops. ChunkBuffer_Init c = Inr cb0 \<longrightarrow>
        int (buffered_bytes (foldl apply_op cb0 ops)) \<le> c)
   \<and> (take (nat (read_buffer_size s)) (file_bytes t) \<noteq> []
       \<and> int (buffered_bytes (chunk_buffer s)
                + length (take (nat (read_buffer_size s)) (file_bytes t))) > capacity (chunk_buffer s)
       \<longrightarrow>
         (\<exists>s'. client_iteration t s = Break s')
         \<and> client_loop (t # ts) s = client_loop [t] s
         \<and> chunk_buffer (client_loop (t # ts) s) = chunk_buffer s
         \<and> completed_chunks (trace (client_loop (t # ts) s)) = completed_chunks (trace s)
         \<and> uploaded_chunks (trace (client_loop (t # ts) s)) = uploaded_chunks (trace s))"
proof -
  have a: "int (buffered_bytes cb + length bytes) > capacity cb \<longrightarrow>
      Write cb bytes b = (BufferFull, cb)"
    by (simp add: Write_def)
  have b: "int (buffered_bytes cb + length bytes) \<le> capacity cb \<longrightarrow>
        fst (Write cb bytes b) = Success
        \<and> buffered_bytes (snd (Write cb bytes b)) = buffered_bytes cb + length bytes
        \<and> concat (ready (snd (Write cb bytes b))) @ assembling (snd (Write cb bytes b))
            = concat (ready cb) @ assembling cb @ bytes"
    by (simp add: Write_def buffered_bytes_def)
  have c: "\<forall>c cb0 ops. ChunkBuffer_Init c = Inr cb0 \<longrightarrow>
        int (buffered_bytes (foldl apply_op cb0 ops)) \<le> c"
  proof (intro allI impI)
    fix c cb0 ops
    assume i: "ChunkBuffer_Init c = Inr cb0"
    then have cb0: "cb0 = \<lparr>capacity = c, ready = [], assembling = []\<rparr>" and pos: "0 < c"
      by (auto simp: ChunkBuffer_Init_def split: if_splits)
    from cb0 pos have "int (buffered_bytes cb0) \<le> capacity cb0"
      by (simp add: buffered_bytes_def)
    from ops_bounded [OF this, of ops] show "int (buffered_bytes (foldl apply_op cb0 ops)) \<le> c"
      by (simp add: ops_capacity cb0)
  qed
  have d: "take (nat (read_buffer_size s)) (file_bytes t) \<noteq> []
       \<and> int (buffered_bytes (chunk_buffer s)
                + length (take (nat (read_buffer_size s)) (file_bytes t))) > capacity (chunk_buffer s)
       \<longrightarrow>
         (\<exists>s'. client_iteration t s = Break s')
         \<and> client_loop (t # ts) s = client_loop [t] s
         \<and> chunk_buffer (client_loop (t # ts) s) = chunk_buffer s
         \<and> completed_chunks (trace (client_loop (t # ts) s)) = completed_chunks (trace s)
         \<and> uploaded_chunks (trace (client_loop (t # ts) s)) = uploaded_chunks (trace s)"
  proof
    assume h: "take (nat (read_buffer_size s)) (file_bytes t) \<noteq> []
       \<and> int (buffered_bytes (chunk_buffer s)
                + length (take (nat (read_buffer_size s)) (file_bytes t))) > capacity (chunk_buffer s)"
    then have br: "client_iteration t s = Break (worker_phase t s)"
      using failed_BufferData_breaks [of s t] by blast
    with worker_phase_buffer [of t s]
    show "(\<exists>s'. client_iteration t s = Break s')
         \<and> client_loop (t # ts) s = client_loop [t] s
         \<and> chunk_buffer (client_loop (t # ts) s) = chunk_buffer s
         \<and> completed_chunks (trace (client_loop (t # ts) s)) = completed_chunks (trace s)
         \<and> uploaded_chunks (trace (client_loop (t # ts) s)) = uploaded_chunks (trace s)"
      by simp
  qed
  show ?thesis using a b c d by blast
qed

theorem Write_fails_with_BufferFull_witness:
  "Write \<lparr>capacity = 1048576,
          ready = [replicate 409600 (0::byte), replicate 409600 0], assembling = []\<rparr>
         (replicate 409600 0) True
     = (BufferFull, \<lparr>capacity = 1048576,
          ready = [replicate 409600 (0::byte), replicate 409600 0], assembling = []\<rparr>)
   \<and> fst (Write \<lparr>capacity = 1048576, ready = [replicate 409600 (0::byte)], assembling = []\<rparr>
         (replicate 409600 0) True) = Success
   \<and> ChunkBuffer_Init 1048576 = Inr \<lparr>capacity = 1048576, ready = [], assembling = []\<rparr>
   \<and> int (buffered_bytes (foldl apply_op \<lparr>capacity = 1048576, ready = [], assembling = []\<rparr>
        [OpWrite (replicate 409600 0) True, OpWrite (replicate 409600 0) True,
         OpWrite (replicate 409600 0) True])) \<le> 1048576
   \<and> take (nat (read_buffer_size
          ((loop_entry settings_1 client_env_2)
             \<lparr>chunk_buffer := \<lparr>capacity = 10, ready = [[5, 6, 7, 8], [9, 10, 11, 12]],
                                assembling = []\<rparr>\<rparr>)))
         (file_bytes (tick_idle\<lparr>file_bytes := [13, 14, 15, 16], chunk_boundary := True\<rparr>))
       = [13, 14, 15, 16]
   \<and> chunk_buffer
        (client_loop
           [tick_idle\<lparr>file_bytes := [13, 14, 15, 16], chunk_boundary := True\<rparr>,
            tick_idle\<lparr>file_bytes := [13, 14, 15, 16], chunk_boundary := True,
                      transfer_ends := True\<rparr>]
           ((loop_entry settings_1 client_env_2)
              \<lparr>chunk_buffer := \<lparr>capacity = 10, ready = [[5, 6, 7, 8], [9, 10, 11, 12]],
                                 assembling = []\<rparr>\<rparr>))
       = \<lparr>capacity = 10, ready = [[5, 6, 7, 8], [9, 10, 11, 12]], assembling = []\<rparr>"
proof -
  let ?k = "replicate 409600 (0::byte)"
  let ?cb0 = "\<lparr>capacity = 1048576, ready = [], assembling = []\<rparr>"
  let ?cb1 = "\<lparr>capacity = 1048576, ready = [?k], assembling = []\<rparr>"
  let ?cb2 = "\<lparr>capacity = 1048576, ready = [?k, ?k], assembling = []\<rparr>"
  let ?full = "\<lparr>capacity = 10, ready = [[5, 6, 7, 8], [9, 10, 11, 12 :: byte]], assembling = []\<rparr>"
  let ?s = "(loop_entry settings_1 client_env_2)\<lparr>chunk_buffer := ?full\<rparr>"
  let ?t = "tick_idle\<lparr>file_bytes := [13, 14, 15, 16], chunk_boundary := True\<rparr>"
  let ?ts = "[tick_idle\<lparr>file_bytes := [13, 14, 15, 16], chunk_boundary := True,
                        transfer_ends := True\<rparr>]"
  note t2 = Write_fails_with_BufferFull [where cb = ?cb2 and bytes = ?k and b = True and s = ?s and t = ?t and ts = ?ts]
  note t1 = Write_fails_with_BufferFull [where cb = ?cb1 and bytes = ?k and b = True and s = ?s and t = ?t and ts = ?ts]
  have over: "int (buffered_bytes ?cb2 + length ?k) > capacity ?cb2"
    by (simp add: buffered_bytes_def)
  from t2 over have full: "Write ?cb2 ?k True = (BufferFull, ?cb2)" by blast
  have room: "int (buffered_bytes ?cb1 + length ?k) \<le> capacity ?cb1"
    by (simp add: buffered_bytes_def)
  from t1 room have retry: "fst (Write ?cb1 ?k True) = Success" by blast
  have init: "ChunkBuffer_Init 1048576 = Inr ?cb0"
    by (simp add: ChunkBuffer_Init_def)
  from t2 init have bound:
    "int (buffered_bytes (foldl apply_op ?cb0 [OpWrite ?k True, OpWrite ?k True, OpWrite ?k True]))
       \<le> 1048576"
    by blast
  have bytes: "take (nat (read_buffer_size ?s)) (file_bytes ?t) = [13, 14, 15, 16]"
    by (simp add: loop_entry_def kReadBufferSize_def tick_idle_def)
  have h: "take (nat (read_buffer_size ?s)) (file_bytes ?t) \<noteq> []
       \<and> int (buffered_bytes (chunk_buffer ?s)
                + length (take (nat (read_buffer_size ?s)) (file_bytes ?t))) > capacity (chunk_buffer ?s)"
    unfolding bytes by (simp add: buffered_bytes_def)
  from t2 h have "chunk_buffer (client_loop (?t # ?ts) ?s) = chunk_buffer ?s" by blast
  then have kept: "chunk_buffer (client_loop (?t # ?ts) ?s) = ?full" by simp
  show ?thesis using full retry init bound bytes kept by blast
qed

text \<open>
  C5 with a caller that retries after the consumer has drained does not hold of
  \<open>client_main\<close>: in the run below the fourth read meets a full buffer, a fifth pass in which
  the transfer ends is at hand, and a write of the same bytes after one read would succeed;
  yet the loop ends at the fourth pass, the bytes are never buffered and the exit code is
  \<open>EXIT_SUCCESS\<close>.
\<close>

theorem failed_write_not_retried_counterexample:
  "fst (Write \<lparr>capacity = 10, ready = [[5, 6, 7, 8], [9, 10, 11, 12]], assembling = []\<rparr>
          [13, 14, 15, 16] True) = BufferFull
   \<and> fst (Write \<lparr>capacity = 10, ready = [[9, 10, 11, 12]], assembling = []\<rparr>
          [13, 14, 15, 16] True) = Success
   \<and> length (ticks client_env_2) = 5
   \<and> client_main settings_1 client_env_2
       = client_main settings_1 (client_env_2\<lparr>ticks := take 4 (ticks client_env_2)\<rparr>)
   \<and> fst (snd (client_main settings_1 client_env_2)) =
        [Init Encoder, Run Encoder, Init Uploader, Run Uploader,
         ChunkCompleted [1, 2, 3, 4], UploadStarted [1, 2, 3, 4],
         ChunkCompleted [5, 6, 7, 8], ChunkCompleted [9, 10, 11, 12],
         Stop Encoder, Stop Uploader]
   \<and> map_option chunk_buffer (snd (snd (client_main settings_1 client_env_2)))
       = Some \<lparr>capacity = 10, ready = [[5, 6, 7, 8], [9, 10, 11, 12]], assembling = []\<rparr>
   \<and> fst (client_main settings_1 client_env_2) = EXIT_SUCCESS"
  by (simp add: client_eval client_env_2_def)

end
